theory Spec2Isabelle
  imports Main "HOL-Library.Word"
begin

unbundle bit_operations_syntax

section \<open>Ops, the op sink and the values\<close>

text \<open>
  Modelled from the spec: the declaration of \<open>Op\<close> and of its constants \<open>vm.Inew\<close> ...
  \<open>vm.Nnew\<close> is not among the source files. The specification lists the twenty ops; an op has
  no operand.
\<close>

datatype op =
    Inew | Iinc | Ishl | Iadd | Ineg | Isht | Itou | Itof
  | Fneg | Fnan | Finf
  | Snew | Sadd
  | Onew | Oadd
  | Anew | Aadd
  | Bnew | Bneg
  | Nnew

type_synonym bytes = "8 word list"

text \<open>
  Modelled from the spec: the interface \<open>lexer.OpWriter\<close> is not among the source files. It
  is the op sink of the specification: \<open>Write(op)\<close> accepts one op and returns \<open>nil\<close>
  (\<open>None\<close>) or an error; it may change the state of the sink either way.
\<close>

type_synonym ('s, 'e) OpWriter = "op \<Rightarrow> 's \<Rightarrow> 'e option \<times> 's"

text \<open>A sink that accepts every op and keeps what it was given, in order.\<close>

definition recorder :: "(op list, 'e) OpWriter" where
  "recorder x log = (None, log @ [x])"

text \<open>
  A sink wrapped so that every call of \<open>Write\<close> is noted with the op it was given and
  the answer of the sink.
\<close>

definition traced :: "('s, 'e) OpWriter \<Rightarrow> ('s \<times> (op \<times> 'e option) list, 'e) OpWriter" where
  "traced w x st = (case w x (fst st) of (r, s') \<Rightarrow> (r, (s', snd st @ [(x, r)])))"

text \<open>Writing a given op sequence to a sink, one op at a time, up to the first error.\<close>

fun emit :: "('s, 'e) OpWriter \<Rightarrow> op list \<Rightarrow> 's \<Rightarrow> 'e option \<times> 's" where
  "emit w [] s = (None, s)"
| "emit w (x # xs) s =
     (case w x s of
        (Some e, s') \<Rightarrow> (Some e, s')
      | (None, s') \<Rightarrow> emit w xs s')"

section \<open>dumper.go: integers\<close>

text \<open>
  \<open>bits.Len64\<close> and \<open>bits.LeadingZeros64\<close> of Go's standard library: the least number of
  bits that represent \<open>x\<close> (0 for 0), and \<open>64 - Len64(x)\<close>.
\<close>

fun bit_len :: "nat \<Rightarrow> nat" where
  "bit_len n = (if n = 0 then 0 else Suc (bit_len (n div 2)))"

declare bit_len.simps [simp del]

definition Len64 :: "64 word \<Rightarrow> nat" where
  "Len64 x = bit_len (unat x)"

definition LeadingZeros64 :: "64 word \<Rightarrow> nat" where
  "LeadingZeros64 x = 64 - Len64 x"

text \<open>\<open>msb := 63 - bits.LeadingZeros64(n)\<close>, a Go \<open>int\<close>.\<close>

definition msb :: "64 word \<Rightarrow> int" where
  "msb n = 63 - int (LeadingZeros64 n)"

text \<open>
  The loop of \<open>dumpInt\<close>: \<open>for i := msb - 1; i >= 0; i-- { ... }\<close>, started at \<open>i\<close>.
\<close>

function dumpInt_loop :: "('s, 'e) OpWriter \<Rightarrow> 64 word \<Rightarrow> int \<Rightarrow> 's \<Rightarrow> 'e option \<times> 's" where
  "dumpInt_loop w n i s =
     (if i \<ge> 0 then
        (case w Ishl s of
           (Some e, s1) \<Rightarrow> (Some e, s1)
         | (None, s1) \<Rightarrow>
             (let mask = push_bit (nat i) (1 :: 64 word) in
              if n AND mask \<noteq> 0 then
                (case w Iinc s1 of
                   (Some e, s2) \<Rightarrow> (Some e, s2)
                 | (None, s2) \<Rightarrow> dumpInt_loop w n (i - 1) s2)
              else dumpInt_loop w n (i - 1) s1))
      else (None, s))"
  by pat_completeness auto
termination
  by (relation "measure (\<lambda>(w, n, i, s). nat (i + 1))") auto

declare dumpInt_loop.simps [simp del]

definition dumpInt :: "('s, 'e) OpWriter \<Rightarrow> 64 word \<Rightarrow> 's \<Rightarrow> 'e option \<times> 's" where
  "dumpInt w n s =
     (case w Inew s of
        (Some e, s1) \<Rightarrow> (Some e, s1)
      | (None, s1) \<Rightarrow>
          if n = 0 then (None, s1)
          else
            (case w Iinc s1 of
               (Some e, s2) \<Rightarrow> (Some e, s2)
             | (None, s2) \<Rightarrow> dumpInt_loop w n (msb n - 1) s2))"

definition dumpUint :: "('s, 'e) OpWriter \<Rightarrow> 64 word \<Rightarrow> 's \<Rightarrow> 'e option \<times> 's" where
  "dumpUint w n s =
     (case dumpInt w n s of
        (Some e, s1) \<Rightarrow> (Some e, s1)
      | (None, s1) \<Rightarrow> w Itou s1)"

text \<open>
  The op sequence of an integer in the words of the specification: \<open>Inew\<close>; nothing more
  for zero; else \<open>Iinc\<close> and, for each bit index from \<open>msb - 1\<close> down to 0, \<open>Ishl\<close>
  followed by \<open>Iinc\<close> when that bit is set.
\<close>

definition bit_ops :: "64 word \<Rightarrow> nat \<Rightarrow> op list" where
  "bit_ops n i = Ishl # (if bit n i then [Iinc] else [])"

definition int_ops :: "64 word \<Rightarrow> op list" where
  "int_ops n =
     Inew # (if n = 0 then [] else Iinc # concat (map (bit_ops n) (rev [0 ..< nat (msb n)])))"

section \<open>Values\<close>

text \<open>
  Modelled from the spec: the declaration of \<open>Value\<close> and of its kinds is not among the
  source files. It is the tagged variant of the specification, with the fields the sources
  read: \<open>Kind\<close> selects which of \<open>Int\<close>, \<open>Uint\<close>, \<open>Float\<close>, \<open>String\<close>, \<open>Object\<close>, \<open>Array\<close>
  and \<open>Bool\<close> is the payload. A 64-bit integer
  is kept as its two's-complement bit pattern (\<open>uint64(v.Int)\<close> is then the pattern itself),
  a \<open>float64\<close> as its IEEE-754 bit pattern (\<open>math.Float64bits\<close>), a string as its bytes.
  An object is a Go map: its entries are listed in the order in which \<open>range\<close> visits them,
  and the keys of a map are distinct (\<open>unique_keys\<close>). \<open>VUnknown k\<close> stands for a Value
  whose \<open>Kind\<close> field holds a number \<open>k\<close> that is none of the eight kinds.
\<close>

datatype Value =
    VInt "64 word"
  | VUint "64 word"
  | VFloat "64 word"
  | VString bytes
  | VObject "(bytes \<times> Value) list"
  | VArray "Value list"
  | VBool bool
  | VNil
  | VUnknown nat

text \<open>
  \<open>m[k] = v\<close> on a Go map kept as the list of its entries: an entry with key \<open>k\<close> is
  overwritten, otherwise a new entry is added.
\<close>

fun map_put :: "'k \<Rightarrow> 'v \<Rightarrow> ('k \<times> 'v) list \<Rightarrow> ('k \<times> 'v) list" where
  "map_put k v [] = [(k, v)]"
| "map_put k v (kv # m) = (if fst kv = k then (k, v) # m else kv # map_put k v m)"

fun defined_kinds :: "Value \<Rightarrow> bool" where
  "defined_kinds (VObject kvs) = (\<forall>kv \<in> set kvs. defined_kinds (snd kv))"
| "defined_kinds (VArray xs) = (\<forall>x \<in> set xs. defined_kinds x)"
| "defined_kinds (VUnknown k) = False"
| "defined_kinds v = True"

fun unique_keys :: "Value \<Rightarrow> bool" where
  "unique_keys (VObject kvs) = (distinct (map fst kvs) \<and> (\<forall>kv \<in> set kvs. unique_keys (snd kv)))"
| "unique_keys (VArray xs) = (\<forall>x \<in> set xs. unique_keys x)"
| "unique_keys v = True"

section \<open>dumper.go: floats, strings, booleans, nil\<close>

text \<open>
  \<open>math.IsNaN\<close>, \<open>math.IsInf\<close> and \<open>math.Float64bits\<close> of Go's standard library, on the
  bit pattern: a NaN has all eleven exponent bits set and a mantissa that is not zero; the
  infinities are the two patterns with all exponent bits set and mantissa zero.
\<close>

definition pos_inf :: "64 word" where
  "pos_inf = 0x7FF0000000000000"

definition neg_inf :: "64 word" where
  "neg_inf = 0xFFF0000000000000"

definition IsNaN :: "64 word \<Rightarrow> bool" where
  "IsNaN x = (x AND 0x7FF0000000000000 = 0x7FF0000000000000 \<and> x AND 0x000FFFFFFFFFFFFF \<noteq> 0)"

definition IsInf :: "64 word \<Rightarrow> int \<Rightarrow> bool" where
  "IsInf x sign = (sign \<ge> 0 \<and> x = pos_inf \<or> sign \<le> 0 \<and> x = neg_inf)"

definition Float64bits :: "64 word \<Rightarrow> 64 word" where
  "Float64bits x = x"

text \<open>
  \<open>dumpFloat\<close>. The branches for NaN and for +Inf return; the branch for -Inf returns only
  when a write fails, and otherwise control leaves the \<open>if\<close> chain and goes on with the
  statements after it, as it does for every other float.
\<close>

definition dumpFloat :: "('s, 'e) OpWriter \<Rightarrow> 64 word \<Rightarrow> 's \<Rightarrow> 'e option \<times> 's" where
  "dumpFloat w x s =
     (let rest = (\<lambda>s0.
            case dumpInt w (Float64bits x) s0 of
              (Some e, s3) \<Rightarrow> (Some e, s3)
            | (None, s3) \<Rightarrow> w Itof s3)
      in
      if IsNaN x then w Fnan s
      else if IsInf x 1 then w Finf s
      else if IsInf x (- 1) then
        (case w Finf s of
           (Some e, s1) \<Rightarrow> (Some e, s1)
         | (None, s1) \<Rightarrow>
             (case w Fneg s1 of
                (Some e, s2) \<Rightarrow> (Some e, s2)
              | (None, s2) \<Rightarrow> rest s2))
      else rest s)"

text \<open>The loop of \<open>dumpString\<close>: \<open>for _, c := range s { ... }\<close>.\<close>

fun dumpString_loop :: "('s, 'e) OpWriter \<Rightarrow> bytes \<Rightarrow> 's \<Rightarrow> 'e option \<times> 's" where
  "dumpString_loop w [] s = (None, s)"
| "dumpString_loop w (c # cs) s =
     (case dumpInt w (ucast c) s of
        (Some e, s1) \<Rightarrow> (Some e, s1)
      | (None, s1) \<Rightarrow>
          (case w Sadd s1 of
             (Some e, s2) \<Rightarrow> (Some e, s2)
           | (None, s2) \<Rightarrow> dumpString_loop w cs s2))"

definition dumpString :: "('s, 'e) OpWriter \<Rightarrow> bytes \<Rightarrow> 's \<Rightarrow> 'e option \<times> 's" where
  "dumpString w str s =
     (case w Snew s of
        (Some e, s1) \<Rightarrow> (Some e, s1)
      | (None, s1) \<Rightarrow> dumpString_loop w str s1)"

definition dumpBool :: "('s, 'e) OpWriter \<Rightarrow> bool \<Rightarrow> 's \<Rightarrow> 'e option \<times> 's" where
  "dumpBool w b s =
     (case w Bnew s of
        (Some e, s1) \<Rightarrow> (Some e, s1)
      | (None, s1) \<Rightarrow> if b then w Bneg s1 else (None, s1))"

definition dumpNil :: "('s, 'e) OpWriter \<Rightarrow> 's \<Rightarrow> 'e option \<times> 's" where
  "dumpNil w s = w Nnew s"

section \<open>dumper.go: Dump, objects and arrays\<close>

text \<open>
  A call of \<open>Dump\<close> returns an \<open>error\<close> (\<open>nil\<close> is \<open>None\<close>) or panics with
  \<open>unknown kind: k\<close>.
\<close>

datatype 'e outcome = Return "'e option" | Panic nat

definition returned :: "'e option \<times> 's \<Rightarrow> 'e outcome \<times> 's" where
  "returned r = (Return (fst r), snd r)"

fun Dump :: "('s, 'e) OpWriter \<Rightarrow> Value \<Rightarrow> 's \<Rightarrow> 'e outcome \<times> 's"
  and dumpObject :: "('s, 'e) OpWriter \<Rightarrow> (bytes \<times> Value) list \<Rightarrow> 's \<Rightarrow> 'e outcome \<times> 's"
  and dumpObject_loop :: "('s, 'e) OpWriter \<Rightarrow> (bytes \<times> Value) list \<Rightarrow> 's \<Rightarrow> 'e outcome \<times> 's"
  and dumpArray :: "('s, 'e) OpWriter \<Rightarrow> Value list \<Rightarrow> 's \<Rightarrow> 'e outcome \<times> 's"
  and dumpArray_loop :: "('s, 'e) OpWriter \<Rightarrow> Value list \<Rightarrow> 's \<Rightarrow> 'e outcome \<times> 's"
where
  "Dump w (VInt n) s = returned (dumpInt w n s)"
| "Dump w (VUint n) s = returned (dumpUint w n s)"
| "Dump w (VFloat x) s = returned (dumpFloat w x s)"
| "Dump w (VString str) s = returned (dumpString w str s)"
| "Dump w (VObject obj) s = dumpObject w obj s"
| "Dump w (VArray arr) s = dumpArray w arr s"
| "Dump w (VBool b) s = returned (dumpBool w b s)"
| "Dump w VNil s = returned (dumpNil w s)"
| "Dump w (VUnknown k) s = (Panic k, s)"
| "dumpObject w obj s =
     (case w Onew s of
        (Some e, s1) \<Rightarrow> (Return (Some e), s1)
      | (None, s1) \<Rightarrow> dumpObject_loop w obj s1)"
| "dumpObject_loop w [] s = (Return None, s)"
| "dumpObject_loop w (kv # obj) s =
     (case dumpString w (fst kv) s of
        (Some e, s1) \<Rightarrow> (Return (Some e), s1)
      | (None, s1) \<Rightarrow>
          (case Dump w (snd kv) s1 of
             (Return None, s2) \<Rightarrow>
               (case w Oadd s2 of
                  (Some e, s3) \<Rightarrow> (Return (Some e), s3)
                | (None, s3) \<Rightarrow> dumpObject_loop w obj s3)
           | (r, s2) \<Rightarrow> (r, s2)))"
| "dumpArray w arr s =
     (case w Anew s of
        (Some e, s1) \<Rightarrow> (Return (Some e), s1)
      | (None, s1) \<Rightarrow> dumpArray_loop w arr s1)"
| "dumpArray_loop w [] s = (Return None, s)"
| "dumpArray_loop w (v # arr) s =
     (case Dump w v s of
        (Return None, s1) \<Rightarrow>
          (case w Aadd s1 of
             (Some e, s2) \<Rightarrow> (Return (Some e), s2)
           | (None, s2) \<Rightarrow> dumpArray_loop w arr s2)
      | (r, s1) \<Rightarrow> (r, s1))"

text \<open>
  The op sequences in the words of the specification, and the ops \<open>Dump\<close> hands to a sink
  that accepts them all: \<open>plan v\<close> is that sequence together with the kind \<open>Dump\<close> panics
  on, if it reaches a Value of unknown kind.
\<close>

definition string_ops :: "bytes \<Rightarrow> op list" where
  "string_ops str = Snew # concat (map (\<lambda>c. int_ops (ucast c) @ [Sadd]) str)"

definition float_ops_spec :: "64 word \<Rightarrow> op list" where
  "float_ops_spec x =
     (if IsNaN x then [Fnan]
      else if x = pos_inf then [Finf]
      else if x = neg_inf then [Finf, Fneg]
      else int_ops x @ [Itof])"

definition float_ops :: "64 word \<Rightarrow> op list" where
  "float_ops x =
     (if IsNaN x then [Fnan]
      else if x = pos_inf then [Finf]
      else (if x = neg_inf then [Finf, Fneg] else []) @ int_ops x @ [Itof])"

definition bool_ops :: "bool \<Rightarrow> op list" where
  "bool_ops b = Bnew # (if b then [Bneg] else [])"

fun plan :: "Value \<Rightarrow> op list \<times> nat option"
  and plan_object :: "(bytes \<times> Value) list \<Rightarrow> op list \<times> nat option"
  and plan_array :: "Value list \<Rightarrow> op list \<times> nat option"
where
  "plan (VInt n) = (int_ops n, None)"
| "plan (VUint n) = (int_ops n @ [Itou], None)"
| "plan (VFloat x) = (float_ops x, None)"
| "plan (VString str) = (string_ops str, None)"
| "plan (VObject obj) = (Onew # fst (plan_object obj), snd (plan_object obj))"
| "plan (VArray arr) = (Anew # fst (plan_array arr), snd (plan_array arr))"
| "plan (VBool b) = (bool_ops b, None)"
| "plan VNil = ([Nnew], None)"
| "plan (VUnknown k) = ([], Some k)"
| "plan_object [] = ([], None)"
| "plan_object (kv # obj) =
     (case snd (plan (snd kv)) of
        Some k \<Rightarrow> (string_ops (fst kv) @ fst (plan (snd kv)), Some k)
      | None \<Rightarrow>
          (string_ops (fst kv) @ fst (plan (snd kv)) @ Oadd # fst (plan_object obj),
           snd (plan_object obj)))"
| "plan_array [] = ([], None)"
| "plan_array (v # arr) =
     (case snd (plan v) of
        Some k \<Rightarrow> (fst (plan v), Some k)
      | None \<Rightarrow> (fst (plan v) @ Aadd # fst (plan_array arr), snd (plan_array arr)))"

text \<open>Handing a plan to a sink: the ops in order up to the first error, then the panic.\<close>

definition run_plan :: "('s, 'e) OpWriter \<Rightarrow> op list \<times> nat option \<Rightarrow> 's \<Rightarrow> 'e outcome \<times> 's" where
  "run_plan w p s =
     (case emit w (fst p) s of
        (Some e, s') \<Rightarrow> (Return (Some e), s')
      | (None, s') \<Rightarrow> (case snd p of None \<Rightarrow> (Return None, s') | Some k \<Rightarrow> (Panic k, s')))"

text \<open>
  For the trace of a wrapped sink: \<open>clean tr\<close> says that no call noted in \<open>tr\<close> failed.
  \<open>full_after k\<close> is a sink that counts what it accepted and refuses every op from
  the \<open>k\<close>-th on.
\<close>

definition clean :: "(op \<times> 'e option) list \<Rightarrow> bool" where
  "clean tr = (\<forall>c \<in> set tr. snd c = None)"

definition full_after :: "nat \<Rightarrow> (nat, string) OpWriter" where
  "full_after k x n = (if n < k then (None, Suc n) else (Some ''sink full'', n))"

section \<open>The VM\<close>

text \<open>
  Modelled from the spec: the VM (\<open>NewVM\<close>, \<open>Feed\<close>, \<open>FeedMulti\<close>, \<open>Top\<close>, the two errors
  and the copy made by \<open>Oadd\<close> and \<open>Aadd\<close>) is not among the source files; only its tests
  are. The definitions follow the per-op table and the error rule of the specification:
  an op that needs \<open>k\<close> operands fails with \<open>ErrStackEmpty\<close> on a stack of fewer than \<open>k\<close>
  elements, before any kind is looked at; with all operands present and one of the wrong
  kind it fails with \<open>ErrTypeMismatch\<close>; a failing op leaves the stack as it was.
  The stack is a list whose head is the top; \<open>sp\<close> is the index of the top counted from
  the bottom, \<open>-1\<close> when the stack is empty.
\<close>

datatype vm_error = ErrStackEmpty | ErrTypeMismatch

type_synonym stack = "Value list"

definition NewVM :: stack where
  "NewVM = []"

definition sp :: "stack \<Rightarrow> int" where
  "sp st = int (length st) - 1"

text \<open>Modelled from the spec: the number of operands each op requires (column two of the table).\<close>

fun arity :: "op \<Rightarrow> nat" where
  "arity Inew = 0" | "arity Iinc = 1" | "arity Ishl = 1" | "arity Iadd = 2"
| "arity Ineg = 1" | "arity Isht = 2" | "arity Itou = 1" | "arity Itof = 1"
| "arity Fneg = 1" | "arity Fnan = 0" | "arity Finf = 0"
| "arity Snew = 0" | "arity Sadd = 2"
| "arity Onew = 0" | "arity Oadd = 3"
| "arity Anew = 0" | "arity Aadd = 2"
| "arity Bnew = 0" | "arity Bneg = 1"
| "arity Nnew = 0"

text \<open>
  Modelled from the spec: \<open>Fnan\<close> pushes \<open>Float(NaN)\<close> and \<open>Finf\<close> pushes \<open>Float(+Infinity)\<close>.
  The NaN is the one of Go's \<open>math.NaN()\<close>, whose bit pattern is \<open>0x7FF8000000000001\<close>.
\<close>

definition vm_NaN :: "64 word" where
  "vm_NaN = 0x7FF8000000000001"

text \<open>
  Modelled from the spec: the deep copy of a Value is a Value with the same content.
  \<open>Oadd\<close> stores the copy under its key with \<open>map_put\<close>, overwriting an entry with that key.
\<close>

definition deep_copy :: "Value \<Rightarrow> Value" where
  "deep_copy v = v"

text \<open>
  Modelled from the spec: the effect of each op once its operands are present (column
  three of the table); any operand of another kind than required is a type mismatch.
\<close>

fun exec :: "op \<Rightarrow> stack \<Rightarrow> vm_error + stack" where
  "exec Inew st = Inr (VInt 0 # st)"
| "exec Iinc st =
     (case st of VInt v # r \<Rightarrow> Inr (VInt (v + 1) # r) | _ \<Rightarrow> Inl ErrTypeMismatch)"
| "exec Ishl st =
     (case st of VInt v # r \<Rightarrow> Inr (VInt (push_bit 1 v) # r) | _ \<Rightarrow> Inl ErrTypeMismatch)"
| "exec Iadd st =
     (case st of VInt b # VInt a # r \<Rightarrow> Inr (VInt (a + b) # r) | _ \<Rightarrow> Inl ErrTypeMismatch)"
| "exec Ineg st =
     (case st of VInt v # r \<Rightarrow> Inr (VInt (- v) # r) | _ \<Rightarrow> Inl ErrTypeMismatch)"
| "exec Isht st =
     (case st of
        VInt shift # VInt v # r \<Rightarrow>
          Inr (VInt (if 0 \<le> sint shift then push_bit (nat (sint shift)) v
                     else signed_drop_bit (nat (- sint shift)) v) # r)
      | _ \<Rightarrow> Inl ErrTypeMismatch)"
| "exec Itou st =
     (case st of VInt v # r \<Rightarrow> Inr (VUint v # r) | _ \<Rightarrow> Inl ErrTypeMismatch)"
| "exec Itof st =
     (case st of VInt v # r \<Rightarrow> Inr (VFloat v # r) | _ \<Rightarrow> Inl ErrTypeMismatch)"
| "exec Fneg st =
     (case st of VFloat f # r \<Rightarrow> Inr (VFloat (f XOR 0x8000000000000000) # r)
      | _ \<Rightarrow> Inl ErrTypeMismatch)"
| "exec Fnan st = Inr (VFloat vm_NaN # st)"
| "exec Finf st = Inr (VFloat pos_inf # st)"
| "exec Snew st = Inr (VString [] # st)"
| "exec Sadd st =
     (case st of VInt c # VString s # r \<Rightarrow> Inr (VString (s @ [ucast c]) # r)
      | _ \<Rightarrow> Inl ErrTypeMismatch)"
| "exec Onew st = Inr (VObject [] # st)"
| "exec Oadd st =
     (case st of
        v # VString k # VObject obj # r \<Rightarrow> Inr (VObject (map_put k (deep_copy v) obj) # r)
      | _ \<Rightarrow> Inl ErrTypeMismatch)"
| "exec Anew st = Inr (VArray [] # st)"
| "exec Aadd st =
     (case st of v # VArray arr # r \<Rightarrow> Inr (VArray (arr @ [deep_copy v]) # r)
      | _ \<Rightarrow> Inl ErrTypeMismatch)"
| "exec Bnew st = Inr (VBool False # st)"
| "exec Bneg st =
     (case st of VBool b # r \<Rightarrow> Inr (VBool (\<not> b) # r) | _ \<Rightarrow> Inl ErrTypeMismatch)"
| "exec Nnew st = Inr (VNil # st)"

text \<open>Modelled from the spec: \<open>Feed\<close> checks the number of operands first.\<close>

definition Feed :: "op \<Rightarrow> stack \<Rightarrow> vm_error + stack" where
  "Feed x st = (if length st < arity x then Inl ErrStackEmpty else exec x st)"

text \<open>
  Modelled from the spec: \<open>FeedMulti\<close> runs the ops from left to right and stops at the
  first error, keeping the stack reached so far; \<open>Top\<close> reads the top of the stack.
\<close>

fun FeedMulti :: "op list \<Rightarrow> stack \<Rightarrow> vm_error option \<times> stack" where
  "FeedMulti [] st = (None, st)"
| "FeedMulti (x # xs) st =
     (case Feed x st of
        Inl e \<Rightarrow> (Some e, st)
      | Inr st' \<Rightarrow> FeedMulti xs st')"

definition Top :: "stack \<Rightarrow> vm_error + Value" where
  "Top st = (case st of [] \<Rightarrow> Inl ErrStackEmpty | v # rest \<Rightarrow> Inr v)"

text \<open>
  The round trip: the ops \<open>Dump\<close> writes to a sink that accepts them all, fed to a fresh
  VM, and the top of its stack; \<open>None\<close> if \<open>Dump\<close> does not return \<open>nil\<close>, if an op fails or
  if the stack ends up empty.
\<close>

definition round_trip :: "Value \<Rightarrow> Value option" where
  "round_trip v =
     (case Dump (recorder :: (op list, unit) OpWriter) v [] of
        (Return None, ops) \<Rightarrow>
          (case FeedMulti ops NewVM of
             (None, st) \<Rightarrow> (case Top st of Inr v' \<Rightarrow> Some v' | Inl e \<Rightarrow> None)
           | (Some e, st) \<Rightarrow> None)
      | (r, ops) \<Rightarrow> None)"

text \<open>
  What the decoded Value is compared with: \<open>canon v\<close> is \<open>v\<close> with each NaN replaced by the
  one NaN the VM can push. \<open>no_neg_inf v\<close> says that no float in \<open>v\<close> is -Infinity.
\<close>

fun canon :: "Value \<Rightarrow> Value" where
  "canon (VFloat x) = VFloat (if IsNaN x then vm_NaN else x)"
| "canon (VObject obj) = VObject (map (\<lambda>kv. (fst kv, canon (snd kv))) obj)"
| "canon (VArray arr) = VArray (map canon arr)"
| "canon v = v"

fun no_neg_inf :: "Value \<Rightarrow> bool" where
  "no_neg_inf (VFloat x) = (x \<noteq> neg_inf)"
| "no_neg_inf (VObject obj) = (\<forall>kv \<in> set obj. no_neg_inf (snd kv))"
| "no_neg_inf (VArray arr) = (\<forall>x \<in> set arr. no_neg_inf x)"
| "no_neg_inf v = True"

section \<open>Native Go values\<close>

text \<open>
  What \<open>ToValue\<close> and the \<open>reflect\<close> package see of a Go value: its dynamic type and its
  content. \<open>rkind\<close> is \<open>reflect.Kind\<close>; \<open>gotype\<close> lists the predeclared types, the type
  constructors and \<open>T_named\<close>, a defined type (\<open>type N T\<close>) with its underlying type.
\<close>

datatype rkind =
    RBool | RInt | RInt8 | RInt16 | RInt32 | RInt64
  | RUint | RUint8 | RUint16 | RUint32 | RUint64 | RUintptr
  | RFloat32 | RFloat64 | RComplex64 | RComplex128
  | RArray | RChan | RFunc | RInterface | RMap | RPtr | RSlice | RString | RStruct
  | RUnsafePointer

datatype gotype =
    T_bool | T_int | T_int8 | T_int16 | T_int32 | T_int64
  | T_uint | T_uint8 | T_uint16 | T_uint32 | T_uint64 | T_uintptr
  | T_float32 | T_float64 | T_complex64 | T_complex128
  | T_string | T_unsafe_pointer
  | T_interface
  | T_func | T_struct
  | T_slice gotype | T_array nat gotype | T_map gotype gotype | T_ptr gotype | T_chan gotype
  | T_named string gotype

fun Kind :: "gotype \<Rightarrow> rkind" where
  "Kind T_bool = RBool" | "Kind T_int = RInt" | "Kind T_int8 = RInt8" | "Kind T_int16 = RInt16"
| "Kind T_int32 = RInt32" | "Kind T_int64 = RInt64"
| "Kind T_uint = RUint" | "Kind T_uint8 = RUint8" | "Kind T_uint16 = RUint16"
| "Kind T_uint32 = RUint32" | "Kind T_uint64 = RUint64" | "Kind T_uintptr = RUintptr"
| "Kind T_float32 = RFloat32" | "Kind T_float64 = RFloat64"
| "Kind T_complex64 = RComplex64" | "Kind T_complex128 = RComplex128"
| "Kind T_string = RString" | "Kind T_unsafe_pointer = RUnsafePointer"
| "Kind T_interface = RInterface" | "Kind T_func = RFunc" | "Kind T_struct = RStruct"
| "Kind (T_slice e) = RSlice" | "Kind (T_array n e) = RArray" | "Kind (T_map k e) = RMap"
| "Kind (T_ptr e) = RPtr" | "Kind (T_chan e) = RChan"
| "Kind (T_named nm t) = Kind t"

text \<open>
  \<open>Type.Elem()\<close> and \<open>Type.Key()\<close>; \<open>None\<close> where Go panics (the source calls them only
  behind a test of the kind).
\<close>

fun Elem :: "gotype \<Rightarrow> gotype option" where
  "Elem (T_slice e) = Some e"
| "Elem (T_array n e) = Some e"
| "Elem (T_map k e) = Some e"
| "Elem (T_ptr e) = Some e"
| "Elem (T_chan e) = Some e"
| "Elem (T_named nm t) = Elem t"
| "Elem t = None"

fun Key :: "gotype \<Rightarrow> gotype option" where
  "Key (T_map k e) = Some k"
| "Key (T_named nm t) = Key t"
| "Key t = None"

text \<open>
  A \<open>reflect.Value\<close>: a type and a content. Integers are widened to 64 bits and floats to
  \<open>float64\<close>, as \<open>v.Int()\<close>, \<open>v.Uint()\<close> and \<open>v.Float()\<close> return them. \<open>P_nil\<close> is the content
  of a nil chan, func, interface, map, pointer or slice. The entries of a map with string
  keys and the elements of a slice are \<open>reflect.Value\<close>s of the element type: for the
  element type \<open>interface{}\<close> an entry has kind \<open>Interface\<close> and holds nothing (\<open>P_nil\<close>) or a
  value of a concrete type (\<open>P_iface\<close>). \<open>P_other\<close> is any content the conversion never
  reads (a struct, an array, a complex number, a channel, a map whose keys are not strings).
  The argument of \<open>ToValue\<close>, an \<open>interface{}\<close>, is \<open>None\<close> for \<open>nil\<close> and otherwise the value
  of a concrete type it holds.
\<close>

datatype goval = GoVal (Type: gotype) (payload: payload)
  and payload =
      P_bool bool
    | P_int "64 word"
    | P_uint "64 word"
    | P_float "64 word"
    | P_string bytes
    | P_nil
    | P_bytes bytes
    | P_slice "goval list"
    | P_map "(bytes \<times> goval) list"
    | P_iface goval
    | P_other

text \<open>An element of static type \<open>interface{}\<close> holding the given \<open>interface{}\<close> value.\<close>

fun iface :: "goval option \<Rightarrow> goval" where
  "iface None = GoVal T_interface P_nil"
| "iface (Some x) = GoVal T_interface (P_iface x)"

text \<open>
  The panics of the package: the two of its own, and the one \<open>reflect.Value.IsNil\<close> raises
  (a \<open>*reflect.ValueError\<close>) when the kind of its receiver cannot be nil.
\<close>

datatype panic =
    InvalidKind nat
  | CantConvert gotype
  | ValueError rkind

section \<open>any.go: FromValue\<close>

fun FromValue :: "Value \<Rightarrow> panic + goval option"
  and FromValue_object :: "(bytes \<times> goval) list \<Rightarrow> (bytes \<times> Value) list \<Rightarrow> panic + goval option"
  and FromValue_array :: "goval list \<Rightarrow> Value list \<Rightarrow> panic + goval option"
where
  "FromValue (VInt i) = Inr (Some (GoVal T_int64 (P_int i)))"
| "FromValue (VUint u) = Inr (Some (GoVal T_uint64 (P_uint u)))"
| "FromValue (VFloat f) = Inr (Some (GoVal T_float64 (P_float f)))"
| "FromValue (VString s) = Inr (Some (GoVal T_string (P_string s)))"
| "FromValue (VObject entries) = FromValue_object [] entries"
| "FromValue (VArray xs) = FromValue_array [] xs"
| "FromValue (VBool b) = Inr (Some (GoVal T_bool (P_bool b)))"
| "FromValue VNil = Inr None"
| "FromValue (VUnknown k) = Inl (InvalidKind k)"
| "FromValue_object obj [] = Inr (Some (GoVal (T_map T_string T_interface) (P_map obj)))"
| "FromValue_object obj (kv # entries) =
     (case FromValue (snd kv) of
        Inl p \<Rightarrow> Inl p
      | Inr x \<Rightarrow> FromValue_object (map_put (fst kv) (iface x) obj) entries)"
| "FromValue_array arr [] = Inr (Some (GoVal (T_slice T_interface) (P_slice arr)))"
| "FromValue_array arr (v # xs) =
     (case FromValue v of
        Inl p \<Rightarrow> Inl p
      | Inr x \<Rightarrow> FromValue_array (arr @ [iface x]) xs)"

section \<open>any.go: ToValue\<close>

definition isIntFamily :: "goval \<Rightarrow> bool" where
  "isIntFamily v = (Kind (Type v) \<in> {RInt, RInt8, RInt16, RInt32, RInt64})"

definition isUintFamily :: "goval \<Rightarrow> bool" where
  "isUintFamily v = (Kind (Type v) \<in> {RUint, RUint8, RUint16, RUint32, RUint64})"

definition isFloatFamily :: "goval \<Rightarrow> bool" where
  "isFloatFamily v = (Kind (Type v) \<in> {RFloat32, RFloat64})"

definition isBool :: "goval \<Rightarrow> bool" where
  "isBool v = (Kind (Type v) = RBool)"

definition isString :: "goval \<Rightarrow> bool" where
  "isString v = (Kind (Type v) = RString)"

definition isBytes :: "goval \<Rightarrow> bool" where
  "isBytes v = (Kind (Type v) = RSlice \<and> Elem (Type v) = Some T_uint8)"

definition isMapConvertibleToValue :: "goval \<Rightarrow> bool" where
  "isMapConvertibleToValue v =
     (Kind (Type v) = RMap \<and> (case Key (Type v) of Some k \<Rightarrow> Kind k = RString | None \<Rightarrow> False))"

text \<open>
  \<open>reflect.Value.IsNil\<close>: defined for the kinds chan, func, interface, map, pointer, slice
  and unsafe pointer; for any other kind it panics.
\<close>

definition IsNil :: "goval \<Rightarrow> panic + bool" where
  "IsNil v =
     (if Kind (Type v) \<in> {RChan, RFunc, RInterface, RMap, RPtr, RSlice, RUnsafePointer}
      then Inr (payload v = P_nil)
      else Inl (ValueError (Kind (Type v))))"

text \<open>
  \<open>v.Int()\<close>, \<open>v.Uint()\<close>, \<open>v.Float()\<close>, \<open>v.Bool()\<close>, \<open>v.String()\<close> and \<open>v.Bytes()\<close>, each
  called by the source only on a value of the matching kind; the bytes of a nil slice are
  the empty sequence.
\<close>

definition Int_of :: "goval \<Rightarrow> 64 word" where
  "Int_of v = (case payload v of P_int i \<Rightarrow> i | _ \<Rightarrow> 0)"

definition Uint_of :: "goval \<Rightarrow> 64 word" where
  "Uint_of v = (case payload v of P_uint u \<Rightarrow> u | _ \<Rightarrow> 0)"

definition Float_of :: "goval \<Rightarrow> 64 word" where
  "Float_of v = (case payload v of P_float f \<Rightarrow> f | _ \<Rightarrow> 0)"

definition Bool_of :: "goval \<Rightarrow> bool" where
  "Bool_of v = (case payload v of P_bool b \<Rightarrow> b | _ \<Rightarrow> False)"

definition String_of :: "goval \<Rightarrow> bytes" where
  "String_of v = (case payload v of P_string s \<Rightarrow> s | _ \<Rightarrow> [])"

definition Bytes_of :: "goval \<Rightarrow> bytes" where
  "Bytes_of v = (case payload v of P_bytes b \<Rightarrow> b | _ \<Rightarrow> [])"

definition reflectIntToValue :: "goval \<Rightarrow> Value" where
  "reflectIntToValue v = VInt (Int_of v)"

definition reflectUintToValue :: "goval \<Rightarrow> Value" where
  "reflectUintToValue v = VUint (Uint_of v)"

definition reflectFloatToValue :: "goval \<Rightarrow> Value" where
  "reflectFloatToValue v = VFloat (Float_of v)"

definition reflectBoolToValue :: "goval \<Rightarrow> Value" where
  "reflectBoolToValue v = VBool (Bool_of v)"

definition reflectStringToValue :: "goval \<Rightarrow> Value" where
  "reflectStringToValue v = VString (String_of v)"

definition reflectBytesToValue :: "goval \<Rightarrow> Value" where
  "reflectBytesToValue v = VString (Bytes_of v)"

text \<open>
  \<open>reflectValueToValue\<close>, and \<open>reflectMapToValue\<close> with its loop over \<open>v.MapRange()\<close>, which
  converts each entry with \<open>reflectValueToValue\<close> and stores it under its key.
\<close>

fun reflectValueToValue :: "goval \<Rightarrow> panic + Value"
  and reflectMapToValue :: "goval \<Rightarrow> panic + Value"
  and reflectMapToValue_loop :: "(bytes \<times> Value) list \<Rightarrow> (bytes \<times> goval) list \<Rightarrow> panic + Value"
where
  "reflectValueToValue (GoVal t p) =
     (let v = GoVal t p in
      if isIntFamily v then Inr (reflectIntToValue v)
      else if isUintFamily v then Inr (reflectUintToValue v)
      else if isFloatFamily v then Inr (reflectFloatToValue v)
      else if isBool v then Inr (reflectBoolToValue v)
      else if isString v then Inr (reflectStringToValue v)
      else
        (case IsNil v of
           Inl e \<Rightarrow> Inl e
         | Inr True \<Rightarrow> Inr VNil
         | Inr False \<Rightarrow>
             if isBytes v then Inr (reflectBytesToValue v)
             else if isMapConvertibleToValue v then reflectMapToValue (GoVal t p)
             else Inl (CantConvert t)))"
| "reflectMapToValue (GoVal t p) =
     (case p of
        P_map entries \<Rightarrow> reflectMapToValue_loop [] entries
      | _ \<Rightarrow> Inr (VObject []))"
| "reflectMapToValue_loop obj [] = Inr (VObject obj)"
| "reflectMapToValue_loop obj (kv # entries) =
     (case reflectValueToValue (snd kv) of
        Inl e \<Rightarrow> Inl e
      | Inr x \<Rightarrow> reflectMapToValue_loop (map_put (fst kv) x obj) entries)"

text \<open>
  \<open>ToValue\<close>: \<open>nil\<close> first, then the type switch on the exact dynamic type (\<open>[]byte\<close> is
  \<open>[]uint8\<close>), then reflection for everything else.
\<close>

definition ToValue :: "goval option \<Rightarrow> panic + Value" where
  "ToValue i =
     (case i of
        None \<Rightarrow> Inr VNil
      | Some v \<Rightarrow>
          (let t = Type v in
           if t = T_bool then Inr (VBool (Bool_of v))
           else if t = T_int then Inr (VInt (Int_of v))
           else if t = T_int8 then Inr (VInt (Int_of v))
           else if t = T_int16 then Inr (VInt (Int_of v))
           else if t = T_int32 then Inr (VInt (Int_of v))
           else if t = T_int64 then Inr (VInt (Int_of v))
           else if t = T_uint then Inr (VUint (Uint_of v))
           else if t = T_uint8 then Inr (VUint (Uint_of v))
           else if t = T_uint16 then Inr (VUint (Uint_of v))
           else if t = T_uint32 then Inr (VUint (Uint_of v))
           else if t = T_uint64 then Inr (VUint (Uint_of v))
           else if t = T_slice T_uint8 then Inr (VString (Bytes_of v))
           else if t = T_string then Inr (VString (String_of v))
           else if t = T_float32 then Inr (VFloat (Float_of v))
           else if t = T_float64 then Inr (VFloat (Float_of v))
           else reflectValueToValue v))"

text \<open>A Value converted to a native value and back.\<close>

definition there_and_back :: "Value \<Rightarrow> panic + Value" where
  "there_and_back v = (case FromValue v of Inl p \<Rightarrow> Inl p | Inr n \<Rightarrow> ToValue n)"

fun scalar :: "Value \<Rightarrow> bool" where
  "scalar (VObject entries) = False"
| "scalar (VArray xs) = False"
| "scalar (VUnknown k) = False"
| "scalar v = True"

section \<open>Writing op sequences\<close>

lemma emit_append:
  "emit w (xs @ ys) s =
     (case emit w xs s of (Some e, s') \<Rightarrow> (Some e, s') | (None, s') \<Rightarrow> emit w ys s')"
  by (induction xs arbitrary: s) (auto split: prod.splits option.splits)

lemma emit_recorder: "emit recorder xs log = (None, log @ xs)"
  by (induction xs arbitrary: log) (simp_all add: recorder_def)

section \<open>The highest set bit\<close>

lemma bit_len_bounds: "n \<noteq> 0 \<Longrightarrow> (2::nat) ^ (bit_len n - 1) \<le> n \<and> n < 2 ^ bit_len n"
proof (induction n rule: bit_len.induct)
  case (1 n)
  have eq: "bit_len n = Suc (bit_len (n div 2))"
    using 1(2) by (simp add: bit_len.simps [of n])
  show ?case
  proof (cases "n div 2 = 0")
    case True
    with 1 have "n = 1" by (cases n) auto
    then show ?thesis by (simp add: bit_len.simps [of "Suc 0"] bit_len.simps [of 0])
  next
    case False
    with 1 have IH: "2 ^ (bit_len (n div 2) - 1) \<le> n div 2" "n div 2 < 2 ^ bit_len (n div 2)"
      by simp_all
    have "bit_len (n div 2) > 0"
      using False by (simp add: bit_len.simps [of "n div 2"])
    then obtain k where k: "bit_len (n div 2) = Suc k"
      by (cases "bit_len (n div 2)") auto
    from IH have "2 * 2 ^ k \<le> n" "n < 2 * 2 ^ Suc k"
      unfolding k by simp_all
    then show ?thesis unfolding eq k by simp
  qed
qed

lemma bit_len_le: "n < 2 ^ k \<Longrightarrow> bit_len n \<le> k"
proof (induction n arbitrary: k rule: bit_len.induct)
  case (1 n)
  show ?case
  proof (cases "n = 0")
    case True
    then show ?thesis by (simp add: bit_len.simps [of 0])
  next
    case False
    with 1(2) obtain j where j: "k = Suc j" by (cases k) auto
    with 1(2) have "n div 2 < 2 ^ j" by simp
    with 1(1) [OF False] have "bit_len (n div 2) \<le> j" by simp
    with False j show ?thesis by (simp add: bit_len.simps [of n])
  qed
qed

lemma Len64_le: "Len64 x \<le> 64"
  unfolding Len64_def by (rule bit_len_le) (use unsigned_less [of x, where 'a = nat] in simp)

lemma Len64_pos: "x \<noteq> 0 \<Longrightarrow> 0 < Len64 x"
  by (simp add: Len64_def bit_len.simps [of "unat x"] unat_eq_0)

lemma msb_eq: "x \<noteq> 0 \<Longrightarrow> msb x = int (Len64 x) - 1"
  using Len64_le [of x] by (simp add: msb_def LeadingZeros64_def)

lemma msb_nat: "x \<noteq> 0 \<Longrightarrow> nat (msb x) = Len64 x - 1"
  by (simp add: msb_eq)

lemma msb_nonneg: "x \<noteq> 0 \<Longrightarrow> 0 \<le> msb x"
  using Len64_pos [of x] by (simp add: msb_eq)

lemma msb_bounds:
  assumes "x \<noteq> 0"
  shows "2 ^ nat (msb x) \<le> unat x" "unat x < 2 * 2 ^ nat (msb x)"
proof -
  from assms have nz: "unat x \<noteq> 0" by (simp add: unat_eq_0)
  from Len64_pos [OF assms] obtain k where k: "Len64 x = Suc k"
    by (cases "Len64 x") auto
  from bit_len_bounds [OF nz] k
  show "2 ^ nat (msb x) \<le> unat x" "unat x < 2 * 2 ^ nat (msb x)"
    by (simp_all add: msb_nat [OF assms] Len64_def)
qed

lemma unat_drop_bit_div: "unat (drop_bit k (x::64 word)) = unat x div 2 ^ k"
proof -
  have "unat (drop_bit k x) = drop_bit k (unat x)" by (rule unat_drop_bit_eq)
  also have "\<dots> = unat x div 2 ^ k" by (rule drop_bit_eq_div)
  finally show ?thesis .
qed

lemma drop_bit_msb:
  assumes "x \<noteq> 0"
  shows "drop_bit (nat (msb x)) x = 1"
proof -
  from msb_bounds [OF assms] have "unat x div 2 ^ nat (msb x) = 1"
    by (intro div_nat_eqI) simp_all
  then have "unat (drop_bit (nat (msb x)) x) = 1"
    by (simp only: unat_drop_bit_div)
  then show ?thesis by (simp add: word_unat_eq_iff)
qed

lemma msb_highest:
  assumes "x \<noteq> 0"
  shows "bit x (nat (msb x))" "\<forall>j > nat (msb x). \<not> bit x j"
proof -
  show "bit x (nat (msb x))"
    by (simp only: bit_iff_odd_drop_bit drop_bit_msb [OF assms]) simp
  show "\<forall>j > nat (msb x). \<not> bit x j"
  proof (intro allI impI)
    fix j assume "nat (msb x) < j"
    then have "(2::nat) * 2 ^ nat (msb x) \<le> 2 ^ j"
      by (metis Suc_leI power_Suc power_increasing one_le_numeral)
    with msb_bounds(2) [OF assms] have "unat x div 2 ^ j = 0" by simp
    then have "unat (drop_bit j x) = 0" by (simp only: unat_drop_bit_div)
    then have "drop_bit j x = 0" by (simp only: unat_eq_0)
    then show "\<not> bit x j" by (simp only: bit_iff_odd_drop_bit) simp
  qed
qed

section \<open>dumpInt\<close>

lemma bit_mask: "(n AND push_bit i (1::64 word) = 0) = (\<not> bit n i)"
  by (simp add: bit_iff_and_push_bit_not_eq_0)

lemma dumpInt_loop_emit:
  "dumpInt_loop w n i s = emit w (concat (map (bit_ops n) (rev [0 ..< nat (i + 1)]))) s"
proof (induction w n i s rule: dumpInt_loop.induct)
  case (1 w n i s)
  show ?case
  proof (cases "i \<ge> 0")
    case False
    then show ?thesis by (simp add: dumpInt_loop.simps [of w n i s])
  next
    case True
    then have nat_eq: "nat (i + 1) = Suc (nat i)" "nat (i - 1 + 1) = nat i" by simp_all
    show ?thesis
      using True 1
      by (simp add: dumpInt_loop.simps [of w n i s] nat_eq bit_ops_def bit_mask Let_def
          del: push_bit_of_1 split: prod.splits option.splits)
  qed
qed

lemma dumpInt_emit: "dumpInt w n s = emit w (int_ops n) s"
  by (simp add: dumpInt_def int_ops_def dumpInt_loop_emit split: prod.splits option.splits)

lemma count_bit_ops: "count_list (concat (map (bit_ops n) xs)) Ishl = length xs"
  by (induction xs) (auto simp: bit_ops_def)

lemma count_int_ops: "n \<noteq> 0 \<Longrightarrow> int (count_list (int_ops n) Ishl) = msb n"
  using msb_nonneg [of n] by (simp add: int_ops_def count_bit_ops)

lemma int_ops_0: "int_ops 0 = [Inew]"
  by (simp add: int_ops_def)

lemma int_ops_1: "int_ops 1 = [Inew, Iinc]"
  by code_simp

lemma int_ops_3: "int_ops 3 = [Inew, Iinc, Ishl, Iinc]"
  by code_simp

text \<open>
  C3. For every unsigned 64-bit \<open>n\<close>, \<open>dumpInt\<close> writes the sequence \<open>int_ops n\<close> (to any
  sink, up to its first error; to a sink that accepts everything, all of it): \<open>Inew\<close>
  and, unless \<open>n\<close> is zero, \<open>Iinc\<close> followed, for each bit index from \<open>msb - 1\<close> down to 0,
  by \<open>Ishl\<close> and by \<open>Iinc\<close> exactly when that bit of \<open>n\<close> is set. Here \<open>msb\<close> is the index
  of the highest set bit, the output holds exactly \<open>msb\<close> \<open>Ishl\<close> ops, and 0, 1 and 3 give
  \<open>[Inew]\<close>, \<open>[Inew, Iinc]\<close> and \<open>[Inew, Iinc, Ishl, Iinc]\<close>.
\<close>

theorem dumpInt_msb_first:
  "dumpInt (w :: ('s, 'e) OpWriter) n s = emit w (int_ops n) s
   \<and> dumpInt (recorder :: (op list, 'e) OpWriter) n [] = (None, int_ops n)
   \<and> int_ops n =
       Inew # (if n = 0 then []
               else Iinc # concat (map (\<lambda>i. Ishl # (if bit n i then [Iinc] else []))
                                      (rev [0 ..< nat (msb n)])))
   \<and> (n \<noteq> 0 \<longrightarrow>
        bit n (nat (msb n)) \<and> (\<forall>j > nat (msb n). \<not> bit n j)
        \<and> int (count_list (int_ops n) Ishl) = msb n)
   \<and> dumpInt (recorder :: (op list, 'e) OpWriter) 0 [] = (None, [Inew])
   \<and> dumpInt (recorder :: (op list, 'e) OpWriter) 1 [] = (None, [Inew, Iinc])
   \<and> dumpInt (recorder :: (op list, 'e) OpWriter) 3 [] = (None, [Inew, Iinc, Ishl, Iinc])"
proof -
  have rec: "dumpInt (recorder :: (op list, 'e) OpWriter) m [] = (None, int_ops m)" for m
    by (simp only: dumpInt_emit emit_recorder append_Nil)
  have shape: "int_ops n =
       Inew # (if n = 0 then []
               else Iinc # concat (map (\<lambda>i. Ishl # (if bit n i then [Iinc] else []))
                                      (rev [0 ..< nat (msb n)])))"
    unfolding int_ops_def bit_ops_def by (rule refl)
  have high: "n \<noteq> 0 \<longrightarrow>
        bit n (nat (msb n)) \<and> (\<forall>j > nat (msb n). \<not> bit n j)
        \<and> int (count_list (int_ops n) Ishl) = msb n"
    using msb_highest [of n] count_int_ops [of n] by blast
  show ?thesis
    using dumpInt_emit [of w n s] rec [of n] shape high
      rec [of 0] rec [of 1] rec [of 3]
    by (simp only: int_ops_0 int_ops_1 int_ops_3 simp_thms)
qed

theorem dumpInt_msb_first_witness:
  "(5 :: 64 word) \<noteq> 0 \<and> msb 5 = 2 \<and> bit (5 :: 64 word) 2
   \<and> int (count_list (int_ops 5) Ishl) = 2
   \<and> dumpInt (recorder :: (op list, unit) OpWriter) 5 [] = (None, [Inew, Iinc, Ishl, Ishl, Iinc])"
proof -
  have m: "msb 5 = 2" by code_simp
  have ops: "int_ops 5 = [Inew, Iinc, Ishl, Ishl, Iinc]" by code_simp
  have nz: "(5 :: 64 word) \<noteq> 0" by simp
  note t = dumpInt_msb_first [of "recorder :: (op list, unit) OpWriter" 5 "[]"]
  from t have r: "dumpInt (recorder :: (op list, unit) OpWriter) 5 [] = (None, int_ops 5)"
    by blast
  from t nz have h: "bit (5 :: 64 word) (nat (msb 5)) \<and> int (count_list (int_ops 5) Ishl) = msb 5"
    by blast
  from h have h': "bit (5 :: 64 word) 2 \<and> int (count_list (int_ops 5) Ishl) = 2"
    unfolding m by simp
  from nz m h' r show ?thesis
    unfolding ops by blast
qed

section \<open>The dumper writes a fixed op sequence\<close>

lemma dumpUint_emit: "dumpUint w n s = emit w (int_ops n @ [Itou]) s"
  by (simp add: dumpUint_def dumpInt_emit emit_append split: prod.splits option.splits)

lemma IsInf_pos: "IsInf x 1 = (x = pos_inf)"
  by (simp add: IsInf_def)

lemma IsInf_neg: "IsInf x (- 1) = (x = neg_inf)"
  by (simp add: IsInf_def)

lemma dumpFloat_emit: "dumpFloat w x s = emit w (float_ops x) s"
proof -
  have rest: "(case dumpInt w x s0 of (Some e, s3) \<Rightarrow> (Some e, s3) | (None, s3) \<Rightarrow> w Itof s3)
      = emit w (int_ops x @ [Itof]) s0" for s0
    by (simp add: dumpInt_emit emit_append split: prod.splits option.splits)
  have one: "w y s = emit w [y] s" for y
    by (simp split: prod.splits option.splits)
  show ?thesis
  proof (cases "IsNaN x")
    case True
    then show ?thesis by (simp add: dumpFloat_def float_ops_def one [symmetric] del: emit.simps)
  next
    case nan: False
    show ?thesis
    proof (cases "x = pos_inf")
      case True
      with nan show ?thesis
        by (simp add: dumpFloat_def float_ops_def IsInf_pos one [symmetric] del: emit.simps)
    next
      case pos: False
      show ?thesis
      proof (cases "x = neg_inf")
        case True
        then have neg: "(x = neg_inf) = True" by simp
        from nan pos have np: "IsNaN x = False" "(x = pos_inf) = False" by simp_all
        have "dumpFloat w x s =
          (case w Finf s of (Some e, s1) \<Rightarrow> (Some e, s1)
           | (None, s1) \<Rightarrow> (case w Fneg s1 of (Some e, s2) \<Rightarrow> (Some e, s2)
              | (None, s2) \<Rightarrow> emit w (int_ops x @ [Itof]) s2))"
          by (simp only: dumpFloat_def Let_def IsInf_pos IsInf_neg Float64bits_def rest np neg if_False if_True)
        also have "\<dots> = emit w (Finf # Fneg # int_ops x @ [Itof]) s"
          by (simp only: emit.simps)
        also have "\<dots> = emit w (float_ops x) s"
          by (simp only: float_ops_def np neg if_False if_True append_Cons append_Nil)
        finally show ?thesis .
      next
        case False
        with nan pos show ?thesis
          by (simp only: dumpFloat_def Let_def IsInf_pos IsInf_neg Float64bits_def rest float_ops_def
              if_False if_True append_Nil)
      qed
    qed
  qed
qed

lemma dumpString_loop_emit:
  "dumpString_loop w str s = emit w (concat (map (\<lambda>c. int_ops (ucast c) @ [Sadd]) str)) s"
  by (induction str arbitrary: s)
    (simp_all add: dumpInt_emit emit_append split: prod.splits option.splits)

lemma dumpString_emit: "dumpString w str s = emit w (string_ops str) s"
  by (simp add: dumpString_def string_ops_def dumpString_loop_emit split: prod.splits option.splits)

lemma dumpBool_emit: "dumpBool w b s = emit w (bool_ops b) s"
  by (simp add: dumpBool_def bool_ops_def split: prod.splits option.splits)

lemma dumpNil_emit: "dumpNil w s = emit w [Nnew] s"
  by (simp add: dumpNil_def split: prod.splits option.splits)

lemma returned_emit: "returned (emit w xs s) = run_plan w (xs, None) s"
  by (simp add: returned_def run_plan_def split: prod.splits option.splits)

lemma run_plan_Cons:
  "run_plan w (x # xs, p) s =
     (case w x s of (Some e, s1) \<Rightarrow> (Return (Some e), s1) | (None, s1) \<Rightarrow> run_plan w (xs, p) s1)"
  by (simp add: run_plan_def split: prod.splits option.splits)

lemma run_plan_append:
  "run_plan w (xs @ ys, p) s =
     (case emit w xs s of (Some e, s1) \<Rightarrow> (Return (Some e), s1) | (None, s1) \<Rightarrow> run_plan w (ys, p) s1)"
  by (simp add: run_plan_def emit_append split: prod.splits option.splits)

lemma run_plan_Nil: "run_plan w ([], p) s = (case p of None \<Rightarrow> (Return None, s) | Some k \<Rightarrow> (Panic k, s))"
  by (simp add: run_plan_def)

lemma Dump_plan:
  "Dump w v s = run_plan w (plan v) s"
  "dumpObject w obj s = run_plan w (Onew # fst (plan_object obj), snd (plan_object obj)) s"
  "dumpObject_loop w obj s = run_plan w (plan_object obj) s"
  "dumpArray w arr s = run_plan w (Anew # fst (plan_array arr), snd (plan_array arr)) s"
  "dumpArray_loop w arr s = run_plan w (plan_array arr) s"
proof (induction w v s and w obj s and w obj s and w arr s and w arr s
    rule: Dump_dumpObject_dumpObject_loop_dumpArray_dumpArray_loop.induct)
  case (10 w obj s)
  then show ?case
    by (simp add: run_plan_Cons split: prod.splits option.splits)
next
  case (12 w kv obj s)
  then show ?case
    by (cases "plan (snd kv)"; cases "plan_object obj")
       (auto simp: dumpString_emit run_plan_def emit_append
          split: prod.splits option.splits outcome.splits)
next
  case (13 w arr s)
  then show ?case
    by (simp add: run_plan_Cons split: prod.splits option.splits)
next
  case (15 w v arr s)
  then show ?case
    by (cases "plan v"; cases "plan_array arr")
       (auto simp: run_plan_def emit_append split: prod.splits option.splits outcome.splits)
qed (simp_all only: Dump.simps dumpObject_loop.simps dumpArray_loop.simps plan.simps
    plan_object.simps plan_array.simps dumpInt_emit dumpUint_emit dumpFloat_emit dumpString_emit
    dumpBool_emit dumpNil_emit returned_emit run_plan_Nil option.case)

section \<open>Panics and failing sinks\<close>

lemma plan_defined:
  "defined_kinds v \<Longrightarrow> snd (plan v) = None"
  "\<forall>kv \<in> set obj. defined_kinds (snd kv) \<Longrightarrow> snd (plan_object obj) = None"
  "\<forall>x \<in> set arr. defined_kinds x \<Longrightarrow> snd (plan_array arr) = None"
  by (induction v and obj and arr rule: plan_plan_object_plan_array.induct) simp_all

lemma Dump_recorder: "Dump recorder v log = (case snd (plan v) of None \<Rightarrow> Return None | Some k \<Rightarrow> Panic k, log @ fst (plan v))"
  by (simp add: Dump_plan run_plan_def emit_recorder split: option.splits)

lemma traced_apply:
  "traced w x (s, tr) = (case w x s of (r, s') \<Rightarrow> (r, (s', tr @ [(x, r)])))"
  by (simp add: traced_def)

lemma emit_traced:
  "emit (traced w) xs (s, tr) = (r, (s', tr')) \<Longrightarrow>
     (r = None \<and> (\<exists>new. tr' = tr @ new \<and> clean new))
     \<or> (\<exists>e pre x. r = Some e \<and> tr' = tr @ pre @ [(x, Some e)] \<and> clean pre)"
proof (induction xs arbitrary: s tr)
  case Nil
  then show ?case by (simp add: clean_def)
next
  case (Cons y ys)
  obtain r1 s1 where w: "w y s = (r1, s1)" by (cases "w y s")
  show ?case
  proof (cases r1)
    case (Some e)
    with Cons.prems w have "r = Some e" "tr' = tr @ [] @ [(y, Some e)]"
      by (auto simp add: traced_apply)
    then show ?thesis by (auto simp: clean_def)
  next
    case None
    with Cons.prems w have "emit (traced w) ys (s1, tr @ [(y, None)]) = (r, (s', tr'))"
      by (simp add: traced_apply)
    from Cons.IH [OF this] show ?thesis
    proof
      assume "r = None \<and> (\<exists>new. tr' = (tr @ [(y, None)]) @ new \<and> clean new)"
      then obtain new where "r = None" "tr' = tr @ ((y, None) # new)" "clean new" by auto
      then have "r = None \<and> tr' = tr @ ((y, None) # new) \<and> clean ((y, None) # new)"
        by (simp add: clean_def)
      then show ?thesis by blast
    next
      assume "\<exists>e pre x. r = Some e \<and> tr' = (tr @ [(y, None)]) @ pre @ [(x, Some e)] \<and> clean pre"
      then obtain e pre x where "r = Some e" "tr' = tr @ ((y, None) # pre) @ [(x, Some e)]" "clean pre"
        by auto
      then have "r = Some e \<and> tr' = tr @ ((y, None) # pre) @ [(x, Some e)] \<and> clean ((y, None) # pre)"
        by (simp add: clean_def)
      then show ?thesis by blast
    qed
  qed
qed

lemma clean_nth: "clean tr \<Longrightarrow> i < length tr \<Longrightarrow> snd (tr ! i) = None"
  by (simp add: clean_def)


section \<open>Claims about the dumper\<close>

lemma neg_inf_facts: "\<not> IsNaN neg_inf" "neg_inf \<noteq> pos_inf" "\<not> IsNaN pos_inf"
  by (simp_all add: IsNaN_def neg_inf_def pos_inf_def)

lemma float_ops_neg_inf: "float_ops neg_inf = [Finf, Fneg] @ int_ops neg_inf @ [Itof]"
  by (simp add: float_ops_def neg_inf_facts)

lemma float_ops_spec_eq: "x \<noteq> neg_inf \<Longrightarrow> float_ops x = float_ops_spec x"
  by (simp add: float_ops_def float_ops_spec_def)

lemma msb_unique:
  assumes "2 ^ k \<le> unat x" "unat x < 2 * 2 ^ k"
  shows "msb x = int k"
proof -
  from assms(1) have nz: "x \<noteq> 0" by (auto simp: unat_eq_0)
  from msb_bounds [OF nz] assms have "(2::nat) ^ k < 2 ^ Suc (nat (msb x))" "(2::nat) ^ nat (msb x) < 2 ^ Suc k"
    by simp_all
  then have "k < Suc (nat (msb x))" "nat (msb x) < Suc k"
    by (simp_all only: power_strict_increasing_iff [of "2::nat"] one_less_numeral_iff semiring_norm)
  with msb_nonneg [OF nz] show ?thesis by simp
qed

lemma msb_neg_inf: "msb neg_inf = 63"
  using msb_unique [of 63 neg_inf] by (simp add: neg_inf_def)

lemma int_ops_neg_inf:
  "int_ops neg_inf = Inew # Iinc # concat (map (bit_ops neg_inf) (rev [0 ..< 63]))"
  by (simp add: int_ops_def msb_neg_inf) (simp add: neg_inf_def)

text \<open>
  C2. The claim: \<open>Dump\<close> on a Float, through \<open>dumpFloat\<close>, writes \<open>[Fnan]\<close> for a NaN, \<open>[Finf]\<close> for +Infinity,
  \<open>[Finf, Fneg]\<close> for -Infinity and otherwise the integer sequence of the bit pattern
  followed by \<open>Itof\<close>, and nothing more. The code does so except for -Infinity: there,
  after \<open>Finf\<close> and \<open>Fneg\<close>, it goes on and also writes the integer sequence of the bit
  pattern \<open>0xFFF0000000000000\<close> and \<open>Itof\<close>.
\<close>

theorem dumpFloat_neg_inf_writes_more:
  "dumpFloat (recorder :: (op list, 'e) OpWriter) neg_inf []
     = (None, [Finf, Fneg] @ int_ops neg_inf @ [Itof])
   \<and> int_ops neg_inf = Inew # Iinc # concat (map (bit_ops neg_inf) (rev [0 ..< 63]))
   \<and> snd (dumpFloat (recorder :: (op list, 'e) OpWriter) neg_inf []) \<noteq> float_ops_spec neg_inf
   \<and> float_ops_spec neg_inf = [Finf, Fneg]
   \<and> Dump (recorder :: (op list, 'e) OpWriter) (VFloat neg_inf) []
       = (Return None, [Finf, Fneg] @ int_ops neg_inf @ [Itof])"
proof -
  have a: "dumpFloat (recorder :: (op list, 'e) OpWriter) neg_inf []
      = (None, [Finf, Fneg] @ int_ops neg_inf @ [Itof])"
    by (simp only: dumpFloat_emit emit_recorder float_ops_neg_inf append_Nil)
  have b: "float_ops_spec neg_inf = [Finf, Fneg]"
    by (simp add: float_ops_spec_def neg_inf_facts)
  have c: "snd (dumpFloat (recorder :: (op list, 'e) OpWriter) neg_inf []) \<noteq> float_ops_spec neg_inf"
    unfolding a b by simp
  have d: "Dump (recorder :: (op list, 'e) OpWriter) (VFloat neg_inf) []
      = (Return None, [Finf, Fneg] @ int_ops neg_inf @ [Itof])"
    by (simp only: Dump.simps returned_def a fst_conv snd_conv)
  from a int_ops_neg_inf c b d show ?thesis by blast
qed

text \<open>For every other float the code writes what the specification says.\<close>

lemma dumpFloat_spec_unless_neg_inf:
  "x \<noteq> neg_inf \<Longrightarrow> dumpFloat w x s = emit w (float_ops_spec x) s"
  by (simp add: dumpFloat_emit float_ops_spec_eq)

text \<open>
  C9. For every byte sequence \<open>str\<close>, \<open>Dump\<close> on the String of \<open>str\<close> goes through
  \<open>dumpString\<close> and writes \<open>Snew\<close> followed by, for each byte \<open>c\<close> of \<open>str\<close> in order, the
  sequence \<open>dumpInt\<close> writes for \<open>uint64(c)\<close> and then \<open>Sadd\<close>: to any sink up to its first
  error, whose error it returns, and in full to a sink that accepts every op, where it
  returns \<open>nil\<close> and has written exactly these ops.
\<close>

theorem dumpString_ops:
  "dumpString (w :: ('s, 'e) OpWriter) str s =
     emit w (Snew # concat (map (\<lambda>c. snd (dumpInt (recorder :: (op list, 'e) OpWriter) (ucast c) [])
                                      @ [Sadd]) str)) s
   \<and> dumpString (recorder :: (op list, 'e) OpWriter) str [] =
     (None, Snew # concat (map (\<lambda>c. snd (dumpInt (recorder :: (op list, 'e) OpWriter) (ucast c) [])
                                      @ [Sadd]) str))
   \<and> Dump w (VString str) s =
     (Return (fst (emit w (Snew # concat (map (\<lambda>c. snd (dumpInt (recorder :: (op list, 'e) OpWriter)
                                                              (ucast c) []) @ [Sadd]) str)) s)),
      snd (emit w (Snew # concat (map (\<lambda>c. snd (dumpInt (recorder :: (op list, 'e) OpWriter)
                                                       (ucast c) []) @ [Sadd]) str)) s))
   \<and> Dump (recorder :: (op list, 'e) OpWriter) (VString str) [] =
     (Return None,
      Snew # concat (map (\<lambda>c. snd (dumpInt (recorder :: (op list, 'e) OpWriter) (ucast c) [])
                                @ [Sadd]) str))"
proof -
  have rec: "snd (dumpInt (recorder :: (op list, 'e) OpWriter) m []) = int_ops m" for m
    by (simp only: dumpInt_emit emit_recorder append_Nil snd_conv)
  have a: "dumpString w str s = emit w (string_ops str) s"
    by (rule dumpString_emit)
  have b: "dumpString (recorder :: (op list, 'e) OpWriter) str [] = (None, string_ops str)"
    by (simp only: dumpString_emit emit_recorder append_Nil)
  have c: "Dump w (VString str) s
      = (Return (fst (emit w (string_ops str) s)), snd (emit w (string_ops str) s))"
    by (simp only: Dump.simps returned_def dumpString_emit)
  have d: "Dump (recorder :: (op list, 'e) OpWriter) (VString str) [] = (Return None, string_ops str)"
    by (simp only: Dump.simps returned_def b fst_conv snd_conv)
  from a b c d show ?thesis
    by (simp only: rec string_ops_def simp_thms)
qed

text \<open>
  C10. If the Value given to \<open>Dump\<close> and every Value nested in its objects and arrays has one
  of the eight defined kinds, \<open>Dump\<close> does not panic: with any sink it returns, either
  \<open>nil\<close> or an error of the sink, and with a sink that accepts every op it returns \<open>nil\<close>.
\<close>

theorem Dump_never_panics:
  assumes "defined_kinds v"
  shows "(\<exists>r. fst (Dump w v s) = Return r) \<and> fst (Dump recorder v log) = Return None"
proof -
  from assms have p: "snd (plan v) = None" by (rule plan_defined)
  have "\<exists>r. fst (Dump w v s) = Return r"
    by (simp add: Dump_plan run_plan_def p split: prod.splits option.splits)
  moreover have "fst (Dump recorder v log) = Return None"
    by (simp add: Dump_recorder p)
  ultimately show ?thesis ..
qed

theorem Dump_never_panics_witness:
  "defined_kinds (VArray [VInt 3, VObject [([97], VBool True)], VNil])
   \<and> fst (Dump (recorder :: (op list, unit) OpWriter)
            (VArray [VInt 3, VObject [([97], VBool True)], VNil]) []) = Return None"
proof -
  have d: "defined_kinds (VArray [VInt 3, VObject [([97], VBool True)], VNil])"
    by simp
  from Dump_never_panics [OF d, of "recorder :: (op list, unit) OpWriter" "[]" "[]"] d
  show ?thesis by blast
qed

text \<open>
  C5. Whatever the Value and the sink: if a write fails during \<open>Dump\<close>, that write is the
  last call \<open>Dump\<close> makes of the sink, and \<open>Dump\<close> returns the error of that write as it is.
  The sink is wrapped by \<open>traced\<close>, which notes each call and its answer.
\<close>

theorem Dump_stops_at_first_error:
  assumes "Dump (traced w) v (s, []) = (r, (s', tr))"
    and "i < length tr" and "snd (tr ! i) = Some e"
  shows "Suc i = length tr \<and> r = Return (Some e)"
proof -
  obtain r0 st0 where em: "emit (traced w) (fst (plan v)) (s, []) = (r0, st0)"
    by (cases "emit (traced w) (fst (plan v)) (s, [])")
  with assms(1) have st0: "st0 = (s', tr)"
    by (auto simp: Dump_plan run_plan_def split: option.splits)
  from emit_traced [OF em [unfolded st0]]
  show ?thesis
  proof
    assume "r0 = None \<and> (\<exists>new. tr = [] @ new \<and> clean new)"
    then have "clean tr" by auto
    from clean_nth [OF this assms(2)] assms(3) show ?thesis by simp
  next
    assume "\<exists>e pre x. r0 = Some e \<and> tr = [] @ pre @ [(x, Some e)] \<and> clean pre"
    then obtain e' pre x where r0: "r0 = Some e'" and tr: "tr = pre @ [(x, Some e')]" and c: "clean pre"
      by auto
    have "\<not> i < length pre"
    proof
      assume "i < length pre"
      with clean_nth [OF c this] assms(3) tr show False by (simp add: nth_append)
    qed
    with assms(2) tr have i: "i = length pre" by simp
    with assms(3) tr have "e' = e" by simp
    moreover from em r0 st0 assms(1) have "r = Return (Some e')"
      by (simp add: Dump_plan run_plan_def)
    ultimately show ?thesis using i tr by simp
  qed
qed

theorem Dump_stops_at_first_error_witness:
  "Dump (traced (full_after 2)) (VInt 3) (0, []) =
     (Return (Some ''sink full''), (2, [(Inew, None), (Iinc, None), (Ishl, Some ''sink full'')]))
   \<and> snd ([(Inew, None), (Iinc, None), (Ishl, Some ''sink full'')] ! 2) = Some ''sink full''
   \<and> Suc 2 = length [(Inew, None :: string option), (Iinc, None), (Ishl, Some ''sink full'')]"
proof -
  have run: "Dump (traced (full_after 2)) (VInt 3) (0, []) =
     (Return (Some ''sink full''), (2, [(Inew, None), (Iinc, None), (Ishl, Some ''sink full'')]))"
    by (simp add: Dump_plan run_plan_def int_ops_3 traced_apply full_after_def)
  have at: "snd ([(Inew, None), (Iinc, None), (Ishl, Some ''sink full'')] ! 2) = Some ''sink full''"
    by simp
  have len: "2 < length [(Inew, None :: string option), (Iinc, None), (Ishl, Some ''sink full'')]"
    by simp
  from Dump_stops_at_first_error [OF run len at] run at show ?thesis by blast
qed

section \<open>The VM decodes what the dumper writes\<close>

lemma FeedMulti_append:
  "FeedMulti (xs @ ys) st =
     (case FeedMulti xs st of (None, st') \<Rightarrow> FeedMulti ys st' | (Some e, st') \<Rightarrow> (Some e, st'))"
  by (induction xs arbitrary: st) (auto split: sum.splits)

lemma drop_bit_step:
  "push_bit 1 (drop_bit (Suc k) (n :: 64 word)) + of_bool (bit n k) = drop_bit k n"
proof -
  have "drop_bit k n = push_bit 1 (drop_bit 1 (drop_bit k n)) + take_bit 1 (drop_bit k n)"
    by (simp only: bits_ident)
  also have "drop_bit 1 (drop_bit k n) = drop_bit (Suc k) n"
    by (simp add: drop_bit_drop_bit)
  also have "take_bit 1 (drop_bit k n) = of_bool (bit n k)"
    by (simp add: take_bit_Suc_0 bit_iff_odd_drop_bit mod_2_eq_odd)
  finally show ?thesis by simp
qed

lemma Feed_Ishl: "Feed Ishl (VInt v # st) = Inr (VInt (push_bit 1 v) # st)"
  by (simp add: Feed_def)

lemma Feed_Iinc: "Feed Iinc (VInt v # st) = Inr (VInt (v + 1) # st)"
  by (simp add: Feed_def)

lemma FeedMulti_bit_ops:
  "FeedMulti (concat (map (bit_ops n) (rev [0 ..< k]))) (VInt (drop_bit k n) # st) = (None, VInt n # st)"
proof (induction k)
  case 0
  then show ?case by simp
next
  case (Suc k)
  have "FeedMulti (bit_ops n k) (VInt (drop_bit (Suc k) n) # st) = (None, VInt (drop_bit k n) # st)"
    using drop_bit_step [of k n]
    by (cases "bit n k") (simp_all add: bit_ops_def Feed_Ishl Feed_Iinc del: drop_bit_Suc)
  with Suc show ?case by (simp add: FeedMulti_append)
qed

lemma FeedMulti_int_ops: "FeedMulti (int_ops n) st = (None, VInt n # st)"
proof (cases "n = 0")
  case True
  then show ?thesis by (simp add: int_ops_def Feed_def)
next
  case False
  have "FeedMulti (int_ops n) st =
      FeedMulti (concat (map (bit_ops n) (rev [0 ..< nat (msb n)]))) (VInt 1 # st)"
    using False by (simp add: int_ops_def Feed_def)
  also have "\<dots> = (None, VInt n # st)"
    using FeedMulti_bit_ops [of n "nat (msb n)" st] by (simp only: drop_bit_msb [OF False])
  finally show ?thesis .
qed

lemma FeedMulti_string_loop:
  "FeedMulti (concat (map (\<lambda>c. int_ops (ucast c) @ [Sadd]) str)) (VString acc # st)
     = (None, VString (acc @ str) # st)"
proof (induction str arbitrary: acc)
  case Nil
  then show ?case by simp
next
  case (Cons c cs)
  have narrow: "(ucast (ucast c :: 64 word) :: 8 word) = c"
    by (rule ucast_up_ucast_id) (simp add: is_up)
  have step: "FeedMulti (int_ops (ucast c) @ [Sadd]) (VString acc # st) = (None, VString (acc @ [c]) # st)"
    by (simp add: FeedMulti_append FeedMulti_int_ops Feed_def narrow)
  have "FeedMulti (concat (map (\<lambda>c. int_ops (ucast c) @ [Sadd]) (c # cs))) (VString acc # st)
      = FeedMulti ((int_ops (ucast c) @ [Sadd]) @ concat (map (\<lambda>c. int_ops (ucast c) @ [Sadd]) cs))
          (VString acc # st)"
    by simp
  also have "\<dots> = FeedMulti (concat (map (\<lambda>c. int_ops (ucast c) @ [Sadd]) cs)) (VString (acc @ [c]) # st)"
    by (simp only: FeedMulti_append [of "int_ops (ucast c) @ [Sadd]"] step) simp
  also have "\<dots> = (None, VString ((acc @ [c]) @ cs) # st)"
    by (rule Cons.IH)
  finally show ?case by simp
qed

lemma FeedMulti_string_ops: "FeedMulti (string_ops str) st = (None, VString str # st)"
  using FeedMulti_string_loop [of str "[]" st] by (simp add: string_ops_def Feed_def)

lemma FeedMulti_float_ops:
  "x \<noteq> neg_inf \<Longrightarrow> FeedMulti (float_ops x) st = (None, VFloat (if IsNaN x then vm_NaN else x) # st)"
  by (simp add: float_ops_def Feed_def FeedMulti_append FeedMulti_int_ops)

lemma FeedMulti_bool_ops: "FeedMulti (bool_ops b) st = (None, VBool b # st)"
  by (simp add: bool_ops_def Feed_def)

lemma FeedMulti_uint_ops: "FeedMulti (int_ops n @ [Itou]) st = (None, VUint n # st)"
  by (simp add: FeedMulti_append FeedMulti_int_ops Feed_def)

lemma map_put_new: "k \<notin> fst ` set obj \<Longrightarrow> map_put k v obj = obj @ [(k, v)]"
  by (induction obj) auto

lemma FeedMulti_plan:
  "defined_kinds v \<Longrightarrow> unique_keys v \<Longrightarrow> no_neg_inf v \<Longrightarrow>
     FeedMulti (fst (plan v)) st = (None, canon v # st)"
  "\<forall>kv \<in> set obj. defined_kinds (snd kv) \<and> unique_keys (snd kv) \<and> no_neg_inf (snd kv) \<Longrightarrow>
     distinct (map fst acc @ map fst obj) \<Longrightarrow>
     FeedMulti (fst (plan_object obj)) (VObject acc # st)
       = (None, VObject (acc @ map (\<lambda>kv. (fst kv, canon (snd kv))) obj) # st)"
  "\<forall>x \<in> set arr. defined_kinds x \<and> unique_keys x \<and> no_neg_inf x \<Longrightarrow>
     FeedMulti (fst (plan_array arr)) (VArray acc2 # st) = (None, VArray (acc2 @ map canon arr) # st)"
proof (induction v and obj and arr arbitrary: st and acc st and acc2 st
    rule: plan_plan_object_plan_array.induct)
  case (5 obj)
  from "5.IH" [of "[]" st] "5.prems" show ?case by (simp add: Feed_def)
next
  case (6 arr)
  from "6.IH" [of "[]" st] "6.prems" show ?case by (simp add: Feed_def)
next
  case (11 kv obj)
  from "11.prems"(1) have ok: "defined_kinds (snd kv)" "unique_keys (snd kv)" "no_neg_inf (snd kv)"
    and rest: "\<forall>kv \<in> set obj. defined_kinds (snd kv) \<and> unique_keys (snd kv) \<and> no_neg_inf (snd kv)"
    by simp_all
  from ok(1) have p: "snd (plan (snd kv)) = None" by (rule plan_defined)
  from "11.prems"(2) have new: "fst kv \<notin> fst ` set acc" and
    d: "distinct (map fst (acc @ [(fst kv, canon (snd kv))]) @ map fst obj)"
    by auto
  have step: "FeedMulti (string_ops (fst kv) @ fst (plan (snd kv)) @ [Oadd]) (VObject acc # st)
      = (None, VObject (acc @ [(fst kv, canon (snd kv))]) # st)"
    by (simp add: FeedMulti_append FeedMulti_string_ops "11.IH"(1) [OF ok] Feed_def deep_copy_def
        map_put_new [OF new])
  have "FeedMulti (fst (plan_object (kv # obj))) (VObject acc # st)
      = FeedMulti ((string_ops (fst kv) @ fst (plan (snd kv)) @ [Oadd]) @ fst (plan_object obj))
          (VObject acc # st)"
    by (simp add: p)
  also have "\<dots> = FeedMulti (fst (plan_object obj)) (VObject (acc @ [(fst kv, canon (snd kv))]) # st)"
    by (simp only: FeedMulti_append [of "string_ops (fst kv) @ fst (plan (snd kv)) @ [Oadd]"] step)
       simp
  also have "\<dots> = (None, VObject ((acc @ [(fst kv, canon (snd kv))]) @ map (\<lambda>kv. (fst kv, canon (snd kv))) obj) # st)"
    by (rule "11.IH"(3) [OF p rest d])
  finally show ?case by simp
next
  case (13 v arr)
  from "13.prems"(1) have ok: "defined_kinds v" "unique_keys v" "no_neg_inf v"
    and rest: "\<forall>x \<in> set arr. defined_kinds x \<and> unique_keys x \<and> no_neg_inf x"
    by simp_all
  from ok(1) have p: "snd (plan v) = None" by (rule plan_defined)
  have step: "FeedMulti (fst (plan v) @ [Aadd]) (VArray acc2 # st) = (None, VArray (acc2 @ [canon v]) # st)"
    by (simp add: FeedMulti_append "13.IH"(1) [OF ok] Feed_def deep_copy_def)
  have "FeedMulti (fst (plan_array (v # arr))) (VArray acc2 # st)
      = FeedMulti ((fst (plan v) @ [Aadd]) @ fst (plan_array arr)) (VArray acc2 # st)"
    by (simp add: p)
  also have "\<dots> = FeedMulti (fst (plan_array arr)) (VArray (acc2 @ [canon v]) # st)"
    by (simp only: FeedMulti_append [of "fst (plan v) @ [Aadd]"] step) simp
  also have "\<dots> = (None, VArray ((acc2 @ [canon v]) @ map canon arr) # st)"
    by (rule "13.IH"(3) [OF p rest])
  finally show ?case by simp
qed (simp_all add: FeedMulti_int_ops FeedMulti_uint_ops FeedMulti_float_ops FeedMulti_string_ops
    FeedMulti_bool_ops Feed_def)

lemma round_trip_canon:
  assumes "defined_kinds v" "unique_keys v" "no_neg_inf v"
  shows "round_trip v = Some (canon v)"
  using FeedMulti_plan(1) [OF assms, of "[]"] plan_defined(1) [OF assms(1)]
  by (simp add: round_trip_def Dump_recorder NewVM_def Top_def)


section \<open>Claims about the VM and the round trip\<close>

text \<open>The tests of \<open>execution_test.go\<close>, run on the model of the VM.\<close>

lemma vm_tests:
  "Feed Iinc [VNil] = Inl ErrTypeMismatch"
  "Feed Iinc [] = Inl ErrStackEmpty"
  "Feed Ishl [VInt 123] = Inr [VInt 246]"
  "Feed Iadd [VInt 2, VInt 1] = Inr [VInt 3]"
  "Feed Iadd [VNil, VInt 1] = Inl ErrTypeMismatch"
  "Feed Iadd [VInt 1, VNil] = Inl ErrTypeMismatch"
  "Feed Ineg [VInt 1] = Inr [VInt (- 1)]"
  "Feed Isht [VInt 4, VInt 0xabcd0] = Inr [VInt 0xabcd00]"
  "Feed Isht [VInt (- 4), VInt 0xabcd0] = Inr [VInt 0xabcd]"
  "Feed Isht [VInt 1] = Inl ErrStackEmpty"
  "Feed Sadd [VInt 0x21, VString [104, 101, 108, 108, 111]] = Inr [VString [104, 101, 108, 108, 111, 0x21]]"
  "Feed Sadd [VInt 1] = Inl ErrStackEmpty"
  "Feed Sadd [VNil, VString [104]] = Inl ErrTypeMismatch"
  "Feed Oadd [VInt 2021, VString [121], VObject [([104], VString [119])]]
     = Inr [VObject [([104], VString [119]), ([121], VInt 2021)]]"
  "Feed Oadd [VInt 1] = Inl ErrStackEmpty"
  "Feed Oadd [VInt 2021, VNil, VObject []] = Inl ErrTypeMismatch"
  "Feed Oadd [VInt 2021, VString [121], VNil] = Inl ErrTypeMismatch"
  "Feed Bneg [VBool True] = Inr [VBool False]"
  "Feed Bneg [VNil] = Inl ErrTypeMismatch"
  "FeedMulti [] NewVM = (None, []) \<and> sp [] = - 1"
  "FeedMulti [Inew, Iinc, Iinc, Iinc] NewVM = (None, [VInt 3])"
  by (simp_all add: Feed_def deep_copy_def NewVM_def sp_def)

text \<open>
  C6. For every op and every stack that holds fewer elements than the op needs, \<open>Feed\<close>
  fails with \<open>ErrStackEmpty\<close> and not with \<open>ErrTypeMismatch\<close>, whatever the kinds of the
  elements that are there; so on a stack holding only a String and an Int, \<open>Oadd\<close> fails
  with \<open>ErrStackEmpty\<close>.
\<close>

theorem Feed_arity_first:
  assumes "length st < arity x"
  shows "Feed x st = Inl ErrStackEmpty \<and> Feed x st \<noteq> Inl ErrTypeMismatch"
  using assms by (simp add: Feed_def)

theorem Feed_arity_first_witness:
  "length [VInt 1, VString [104, 111, 103, 101]] < arity Oadd
   \<and> Feed Oadd [VInt 1, VString [104, 111, 103, 101]] = Inl ErrStackEmpty
   \<and> length [VInt 1] < arity Iadd \<and> Feed Iadd [VInt 1] = Inl ErrStackEmpty"
proof -
  have a: "length [VInt 1, VString [104, 111, 103, 101]] < arity Oadd" by simp
  have b: "length [VInt 1] < arity Iadd" by simp
  from Feed_arity_first [OF a] Feed_arity_first [OF b] a b show ?thesis by blast
qed

lemma nan_example: "IsNaN 0xFFF8000000000000" "(0xFFF8000000000000 :: 64 word) \<noteq> vm_NaN" "IsNaN vm_NaN"
  by (simp_all add: IsNaN_def vm_NaN_def)

lemma round_trip_any_NaN: "IsNaN x \<Longrightarrow> round_trip (VFloat x) = Some (VFloat vm_NaN)"
  using round_trip_canon [of "VFloat x"] neg_inf_facts(1) by auto

text \<open>
  C1. The claim: for every Value of the eight kinds, the ops \<open>Dump\<close> writes, fed to a fresh
  VM, leave on top of the stack a Value equal to it, the bit patterns of floats included.
  It fails for a NaN: \<open>Dump\<close> writes \<open>Fnan\<close> for every NaN, and the VM pushes its one NaN,
  so the NaN \<open>0xFFF8000000000000\<close> comes back as \<open>0x7FF8000000000001\<close>.
\<close>

theorem round_trip_NaN_counterexample:
  "defined_kinds (VFloat 0xFFF8000000000000)
   \<and> round_trip (VFloat 0xFFF8000000000000) = Some (VFloat 0x7FF8000000000001)
   \<and> round_trip (VFloat 0xFFF8000000000000) \<noteq> Some (VFloat 0xFFF8000000000000)"
proof -
  have "round_trip (VFloat 0xFFF8000000000000) = Some (canon (VFloat 0xFFF8000000000000))"
    by (rule round_trip_canon) (simp_all add: neg_inf_def)
  then show ?thesis by (simp add: nan_example vm_NaN_def)
qed

text \<open>
  C1, amended. For every Value \<open>v\<close> of the eight kinds that holds no -Infinity (the keys of
  each object being distinct, as in a Go map), the ops \<open>Dump\<close> writes, fed to a fresh VM,
  leave on top of the stack \<open>v\<close> with each NaN replaced by the NaN of the VM: the entries of
  objects and the elements of arrays come back in the order dumped, and every float that
  is not a NaN comes back with its bit pattern.
\<close>

theorem round_trip_up_to_NaN:
  assumes "defined_kinds v" "unique_keys v" "no_neg_inf v"
  shows "round_trip v = Some (canon v)"
  using FeedMulti_plan(1) [OF assms, of "[]"] plan_defined(1) [OF assms(1)]
  by (simp add: round_trip_def Dump_recorder NewVM_def Top_def)

theorem round_trip_up_to_NaN_witness:
  "defined_kinds (VObject [([97], VArray [VInt 5, VFloat 0xFFF8000000000000, VFloat pos_inf]), ([98], VString [104, 105])])
  \<and> unique_keys (VObject [([97], VArray [VInt 5, VFloat 0xFFF8000000000000, VFloat pos_inf]), ([98], VString [104, 105])])
  \<and> no_neg_inf (VObject [([97], VArray [VInt 5, VFloat 0xFFF8000000000000, VFloat pos_inf]), ([98], VString [104, 105])])
  \<and> round_trip (VObject [([97], VArray [VInt 5, VFloat 0xFFF8000000000000, VFloat pos_inf]), ([98], VString [104, 105])])
     = Some (VObject [([97], VArray [VInt 5, VFloat vm_NaN, VFloat pos_inf]), ([98], VString [104, 105])])"
proof -
  let ?v = "VObject [([97], VArray [VInt 5, VFloat 0xFFF8000000000000, VFloat pos_inf]), ([98], VString [104, 105])]"
  have d: "defined_kinds ?v" by simp
  have u: "unique_keys ?v" by simp
  have n: "no_neg_inf ?v" by (simp add: neg_inf_def pos_inf_def)
  have c: "canon ?v = VObject [([97], VArray [VInt 5, VFloat vm_NaN, VFloat pos_inf]), ([98], VString [104, 105])]"
    by (simp add: nan_example neg_inf_facts)
  from round_trip_up_to_NaN [OF d u n] d u n show ?thesis unfolding c by blast
qed

text \<open>
  What is left out above: a -Infinity at the top decodes to itself, with a second float
  left below it on the stack; inside an array the second float makes \<open>Aadd\<close> fail.
\<close>

lemma Fneg_pos_inf: "pos_inf XOR 0x8000000000000000 = neg_inf"
  by (simp add: pos_inf_def neg_inf_def)

lemma round_trip_neg_inf_in_array: "round_trip (VArray [VFloat neg_inf]) = None"
proof -
  have p: "plan (VArray [VFloat neg_inf]) = (Anew # ([Finf, Fneg] @ int_ops neg_inf @ [Itof]) @ [Aadd], None)"
    by (simp add: float_ops_neg_inf)
  have d: "Dump (recorder :: (op list, unit) OpWriter) (VArray [VFloat neg_inf]) []
      = (Return None, Anew # ([Finf, Fneg] @ int_ops neg_inf @ [Itof]) @ [Aadd])"
    by (simp only: Dump_recorder p fst_conv snd_conv option.case append_Nil)
  have f: "FeedMulti (Anew # ([Finf, Fneg] @ int_ops neg_inf @ [Itof]) @ [Aadd]) NewVM
      = (Some ErrTypeMismatch, [VFloat neg_inf, VFloat neg_inf, VArray []])"
    by (simp add: Feed_def FeedMulti_append FeedMulti_int_ops Fneg_pos_inf NewVM_def)
  show ?thesis
    by (simp only: round_trip_def d f prod.case outcome.case option.case)
qed

lemma round_trip_neg_inf_top: "round_trip (VFloat neg_inf) = Some (VFloat neg_inf)"
proof -
  have d: "Dump (recorder :: (op list, unit) OpWriter) (VFloat neg_inf) []
      = (Return None, [Finf, Fneg] @ int_ops neg_inf @ [Itof])"
    by (simp only: Dump_recorder plan.simps float_ops_neg_inf fst_conv snd_conv option.case append_Nil)
  have f: "FeedMulti ([Finf, Fneg] @ int_ops neg_inf @ [Itof]) NewVM
      = (None, [VFloat neg_inf, VFloat neg_inf])"
    by (simp add: Feed_def FeedMulti_append FeedMulti_int_ops Fneg_pos_inf NewVM_def)
  show ?thesis
    by (simp only: round_trip_def d f prod.case outcome.case option.case Top_def list.case sum.case)
qed

section \<open>Claims about the conversion between Values and native values\<close>

lemma there_and_back_scalar: "scalar v \<Longrightarrow> there_and_back v = Inr v"
  by (cases v)
    (simp_all add: there_and_back_def ToValue_def Int_of_def Uint_of_def Float_of_def
      String_of_def Bool_of_def)

lemma FromValue_defined:
  "defined_kinds v \<Longrightarrow> \<exists>n. FromValue v = Inr n"
  "\<forall>kv \<in> set entries. defined_kinds (snd kv) \<Longrightarrow>
     \<exists>m. FromValue_object obj entries = Inr (Some (GoVal (T_map T_string T_interface) (P_map m)))"
  "\<forall>x \<in> set xs. defined_kinds x \<Longrightarrow>
     \<exists>ys. FromValue_array arr xs = Inr (Some (GoVal (T_slice T_interface) (P_slice ys)))"
proof (induction v and obj entries and arr xs rule: FromValue_FromValue_object_FromValue_array.induct)
  case (5 entries)
  then show ?case by fastforce
next
  case (6 xs)
  then show ?case by fastforce
next
  case (11 obj kv entries)
  then show ?case by (auto split: sum.splits)
next
  case (13 arr v xs)
  then show ?case by (auto split: sum.splits)
qed simp_all

lemma reflect_interface_slice:
  "reflectValueToValue (GoVal (T_slice T_interface) (P_slice ys)) = Inl (CantConvert (T_slice T_interface))"
  by (simp add: isIntFamily_def isUintFamily_def isFloatFamily_def isBool_def isString_def
      IsNil_def isBytes_def isMapConvertibleToValue_def)

lemma there_and_back_array:
  assumes "defined_kinds (VArray xs)"
  shows "there_and_back (VArray xs) = Inl (CantConvert (T_slice T_interface))"
proof -
  from assms have "\<forall>x \<in> set xs. defined_kinds x" by simp
  from FromValue_defined(3) [OF this, of "[]"] obtain ys
    where "FromValue (VArray xs) = Inr (Some (GoVal (T_slice T_interface) (P_slice ys)))"
    by auto
  then show ?thesis
    by (simp add: there_and_back_def ToValue_def reflect_interface_slice del: reflectValueToValue.simps)
qed

lemma IsNil_kinds:
  assumes "IsNil v = Inr b"
  shows "\<not> isIntFamily v" "\<not> isUintFamily v" "\<not> isFloatFamily v" "\<not> isBool v" "\<not> isString v"
  using assms
  by (auto simp: IsNil_def isIntFamily_def isUintFamily_def isFloatFamily_def isBool_def
      isString_def split: if_splits)

lemma reflect_nil: "IsNil v = Inr True \<Longrightarrow> reflectValueToValue v = Inr VNil"
  using IsNil_kinds [of v True] by (cases v) (simp add: Let_def)

lemma reflect_unsupported:
  assumes "IsNil v = Inr False" "\<not> isBytes v" "\<not> isMapConvertibleToValue v"
  shows "reflectValueToValue v = Inl (CantConvert (Type v))"
  using IsNil_kinds [OF assms(1)] assms by (cases v) (simp add: Let_def)

lemma reflect_not_nillable:
  assumes "\<not> isIntFamily v" "\<not> isUintFamily v" "\<not> isFloatFamily v" "\<not> isBool v" "\<not> isString v"
    and "IsNil v = Inl e"
  shows "reflectValueToValue v = Inl (ValueError (Kind (Type v)))"
  using assms by (cases v) (auto simp add: Let_def IsNil_def split: if_splits)

lemma kind_simps:
  "isIntFamily (GoVal t p) = (Kind t \<in> {RInt, RInt8, RInt16, RInt32, RInt64})"
  "isUintFamily (GoVal t p) = (Kind t \<in> {RUint, RUint8, RUint16, RUint32, RUint64})"
  "isFloatFamily (GoVal t p) = (Kind t \<in> {RFloat32, RFloat64})"
  "isBool (GoVal t p) = (Kind t = RBool)"
  "isString (GoVal t p) = (Kind t = RString)"
  "isBytes (GoVal t p) = (Kind t = RSlice \<and> Elem t = Some T_uint8)"
  by (simp_all add: isIntFamily_def isUintFamily_def isFloatFamily_def isBool_def isString_def
      isBytes_def)

text \<open>
  C4. The claim: for every Value of a defined kind, \<open>FromValue\<close> followed by \<open>ToValue\<close> gives
  the Value back. It fails for an array, already for the empty one: \<open>FromValue\<close> makes a
  \<open>[]interface{}\<close> of it, and \<open>ToValue\<close> has no case for a slice other than a slice of bytes.
\<close>

theorem there_and_back_array_counterexample:
  "defined_kinds (VArray [])
   \<and> there_and_back (VArray []) = Inl (CantConvert (T_slice T_interface))
   \<and> there_and_back (VArray []) \<noteq> Inr (VArray [])"
proof -
  have d: "defined_kinds (VArray [])" by simp
  from there_and_back_array [OF d] d show ?thesis by simp
qed

text \<open>
  C4, amended. For every Value of kind Int, Uint, Float, String, Bool or Nil, \<open>FromValue\<close>
  followed by \<open>ToValue\<close> gives the Value back. \<open>FromValue\<close> turns Nil into the native \<open>nil\<close>,
  an Object of defined kinds into a \<open>map[string]interface{}\<close> and an Array of defined kinds
  into a \<open>[]interface{}\<close>; the latter \<open>ToValue\<close> cannot convert.
\<close>

theorem there_and_back_scalars:
  "(scalar v \<longrightarrow> there_and_back v = Inr v)
   \<and> FromValue VNil = Inr None
   \<and> (defined_kinds (VObject entries) \<longrightarrow>
        (\<exists>m. FromValue (VObject entries) = Inr (Some (GoVal (T_map T_string T_interface) (P_map m)))))
   \<and> (defined_kinds (VArray xs) \<longrightarrow>
        (\<exists>ys. FromValue (VArray xs) = Inr (Some (GoVal (T_slice T_interface) (P_slice ys))))
        \<and> there_and_back (VArray xs) = Inl (CantConvert (T_slice T_interface)))"
proof -
  have a: "scalar v \<longrightarrow> there_and_back v = Inr v"
    by (simp add: there_and_back_scalar)
  have b: "FromValue VNil = Inr None" by simp
  have c: "defined_kinds (VObject entries) \<longrightarrow>
        (\<exists>m. FromValue (VObject entries) = Inr (Some (GoVal (T_map T_string T_interface) (P_map m))))"
    using FromValue_defined(2) [of entries "[]"] by simp
  have d: "defined_kinds (VArray xs) \<longrightarrow>
        (\<exists>ys. FromValue (VArray xs) = Inr (Some (GoVal (T_slice T_interface) (P_slice ys))))
        \<and> there_and_back (VArray xs) = Inl (CantConvert (T_slice T_interface))"
    using FromValue_defined(3) [of xs "[]"] there_and_back_array [of xs] by simp
  from a b c d show ?thesis by blast
qed

theorem there_and_back_scalars_witness:
  "scalar (VFloat 0x400921FB54442D18) \<and> there_and_back (VFloat 0x400921FB54442D18) = Inr (VFloat 0x400921FB54442D18)
   \<and> scalar (VString [104, 105]) \<and> there_and_back (VString [104, 105]) = Inr (VString [104, 105])
   \<and> defined_kinds (VObject [([97], VInt 1)])
   \<and> FromValue (VObject [([97], VInt 1)])
       = Inr (Some (GoVal (T_map T_string T_interface)
                     (P_map [([97], GoVal T_interface (P_iface (GoVal T_int64 (P_int 1))))])))
   \<and> defined_kinds (VArray [VInt 1, VNil])
   \<and> there_and_back (VArray [VInt 1, VNil]) = Inl (CantConvert (T_slice T_interface))"
proof -
  have s1: "scalar (VFloat 0x400921FB54442D18)" by simp
  have s2: "scalar (VString [104, 105])" by simp
  have d1: "defined_kinds (VObject [([97], VInt 1)])" by simp
  have d2: "defined_kinds (VArray [VInt 1, VNil])" by simp
  have f: "FromValue (VObject [([97], VInt 1)])
       = Inr (Some (GoVal (T_map T_string T_interface)
                     (P_map [([97], GoVal T_interface (P_iface (GoVal T_int64 (P_int 1))))])))"
    by simp
  from there_and_back_scalars [of "VFloat 0x400921FB54442D18" "[]" "[VInt 1, VNil]"] s1 d2
  have a: "there_and_back (VFloat 0x400921FB54442D18) = Inr (VFloat 0x400921FB54442D18)"
    and b: "there_and_back (VArray [VInt 1, VNil]) = Inl (CantConvert (T_slice T_interface))"
    by blast+
  from there_and_back_scalars [of "VString [104, 105]" "[([97], VInt 1)]" "[]"] s2
  have c: "there_and_back (VString [104, 105]) = Inr (VString [104, 105])"
    by blast
  from s1 a s2 c d1 f d2 b show ?thesis by blast
qed

text \<open>
  Objects are left out above. An object without entries, or whose entries are all Nil, does
  come back; an entry that is not Nil reaches \<open>reflectValueToValue\<close> as a value of kind
  \<open>Interface\<close>, which is not unwrapped and for which there is no case.
\<close>

lemma there_and_back_object_entry:
  "there_and_back (VObject [([97], VInt 1)]) = Inl (CantConvert T_interface)"
  "there_and_back (VObject [([97], VNil)]) = Inr (VObject [([97], VNil)])"
  "there_and_back (VObject []) = Inr (VObject [])"
  by (simp_all add: there_and_back_def ToValue_def kind_simps IsNil_def isMapConvertibleToValue_def)

text \<open>
  C7. The claim: a native value for which there is no conversion rule makes the conversion
  fail with the error for an unsupported type (\<open>can't convert T to *vm.Value\<close>). For a value
  whose kind can be nil this is so (\<open>reflect_unsupported\<close>). A struct, which has no rule
  either, does not get that far: no test of the kind applies, \<open>v.IsNil()\<close> is called, and
  \<open>reflect\<close> panics with its own \<open>ValueError\<close> (\<open>reflect_not_nillable\<close>; the same holds for
  arrays, complex numbers and \<open>uintptr\<close>).
\<close>

theorem ToValue_struct_panics_in_IsNil:
  "ToValue (Some (GoVal T_struct P_other)) = Inl (ValueError RStruct)
   \<and> ToValue (Some (GoVal T_struct P_other)) \<noteq> Inl (CantConvert T_struct)
   \<and> ToValue (Some (GoVal (T_ptr T_struct) P_other)) = Inl (CantConvert (T_ptr T_struct))"
  by (simp add: ToValue_def kind_simps IsNil_def isMapConvertibleToValue_def)

text \<open>
  C8. The claim: a nil reference is converted to Nil, the test for nil coming before the
  conversions of byte slices and of maps, so that a nil reference of these shapes always
  gives Nil. In \<open>reflectValueToValue\<close> the test does come first (\<open>reflect_nil\<close>). But a nil
  slice of the exact type \<open>[]byte\<close> given to \<open>ToValue\<close> is caught before that by the case
  \<open>[]byte\<close> of the type switch, which copies its zero bytes into an empty String; the same
  nil slice as an entry of a map, or of a defined type, gives Nil.
\<close>

theorem ToValue_nil_byte_slice:
  "ToValue (Some (GoVal (T_slice T_uint8) P_nil)) = Inr (VString [])
   \<and> reflectValueToValue (GoVal (T_slice T_uint8) P_nil) = Inr VNil
   \<and> ToValue (Some (GoVal (T_named ''B'' (T_slice T_uint8)) P_nil)) = Inr VNil
   \<and> ToValue (Some (GoVal (T_map T_string T_int) P_nil)) = Inr VNil
   \<and> ToValue (Some (GoVal (T_map T_string (T_slice T_uint8))
                  (P_map [([97], GoVal (T_slice T_uint8) P_nil)])))
       = Inr (VObject [([97], VNil)])"
  by (simp add: ToValue_def Bytes_of_def kind_simps IsNil_def isMapConvertibleToValue_def)

end
